theory Spec2Isabelle
  imports Complex_Main "HOL-Library.Sublist"
begin

section \<open>Values and the workflow model\<close>

text \<open>
  The runner (\<^verbatim>\<open>runner.py\<close>) works on the dictionary built by the parser. Its
  fixed keys are modelled as record fields. An environment is a dictionary from variable
  names to scalar document values; the values are not necessarily strings, since a YAML
  document may give \<^verbatim>\<open>PORT: 8080\<close> or \<^verbatim>\<open>DEBUG: true\<close>. Floating point values and
  nested values are left out.
\<close>

datatype pyval = PNone | PBool bool | PInt int | PStr string

text \<open>Python's \<^verbatim>\<open>str(v)\<close> on these values.\<close>

definition digit :: "nat \<Rightarrow> char" where
  "digit n = ''0123456789'' ! n"

fun show_nat :: "nat \<Rightarrow> string" where
  "show_nat n = (if n < 10 then [digit n] else show_nat (n div 10) @ [digit (n mod 10)])"

declare show_nat.simps [simp del]

fun py_str :: "pyval \<Rightarrow> string" where
  "py_str PNone = ''None''"
| "py_str (PBool b) = (if b then ''True'' else ''False'')"
| "py_str (PInt i) = (if i < 0 then ''-'' @ show_nat (nat (- i)) else show_nat (nat i))"
| "py_str (PStr s) = s"

fun is_str :: "pyval \<Rightarrow> bool" where
  "is_str (PStr s) = True"
| "is_str v = False"

type_synonym env = "string \<rightharpoonup> pyval"

record step =
  s_name :: string
  s_uses :: "string option"
  s_run :: "string option"
  s_env :: env
  s_with :: env

record job =
  j_id :: string
  j_name :: string
  j_runs_on :: string
  j_env :: env
  j_steps :: "step list"

record workflow =
  w_name :: string
  w_env :: env
  w_jobs :: "job list"

text \<open>
  Truth value of an optional string, as in \<^verbatim>\<open>if job_filter:\<close> and
  \<^verbatim>\<open>if step.get("uses"):\<close>: \<^verbatim>\<open>None\<close> and the empty string are false.
\<close>

fun truthy :: "string option \<Rightarrow> bool" where
  "truthy None = False"
| "truthy (Some s) = (s \<noteq> [])"

section \<open>The outside world\<close>

text \<open>
  The runner reads the wall clock, reads the ambient process environment and starts shell
  processes. These are parameters of the model. \<open>clock orc n\<close> is the value of the
  \<open>n\<close>-th call of \<^verbatim>\<open>time.time()\<close>. \<open>proc orc n cmd e\<close> is what the \<open>n\<close>-th
  call of \<^verbatim>\<open>subprocess.run\<close> does when given command \<open>cmd\<close> and environment
  \<open>e\<close>: the process exits with a return code and some text on standard error, or the
  call raises an instance of Python's \<^verbatim>\<open>Exception\<close> class, or the command never exits
  (there is no timeout) and the call does not return.

  Console output of the runner is not modelled; it is taken not to affect control flow.
  The \<^verbatim>\<open>verbose\<close> flag only changes console output and is left out.
\<close>

datatype exn = Exception string

datatype proc_outcome = Exited int string | Raised exn | Hangs

record host =
  clock :: "nat \<Rightarrow> real"
  os_environ :: env
  proc :: "nat \<Rightarrow> string \<Rightarrow> env \<Rightarrow> proc_outcome"

text \<open>
  The trace records the calls made during a run: \<^verbatim>\<open>_run_job(job)\<close>,
  \<^verbatim>\<open>_run_step(step, env)\<close>, \<^verbatim>\<open>_run_action(step, step_env)\<close>,
  \<^verbatim>\<open>_run_command(step, step_env)\<close>, \<^verbatim>\<open>subprocess.run(command, env=...)\<close> together
  with what that call did, and the step outcome handed to the formatter (name, elapsed
  time, success).
\<close>

datatype event =
    JobCall job
  | StepCall step env
  | ActionCall step env
  | CommandCall step env
  | Spawn string env proc_outcome
  | StepDone string real bool

record world =
  ticks :: nat
  spawned :: nat
  trace :: "event list"

definition time_time :: "host \<Rightarrow> world \<Rightarrow> real \<times> world" where
  "time_time orc w = (clock orc (ticks w), w\<lparr>ticks := Suc (ticks w)\<rparr>)"

definition emit :: "event \<Rightarrow> world \<Rightarrow> world" where
  "emit e w = w\<lparr>trace := trace w @ [e]\<rparr>"

definition subprocess_run :: "host \<Rightarrow> string \<Rightarrow> env \<Rightarrow> world \<Rightarrow> proc_outcome \<times> world" where
  "subprocess_run orc command penv w =
     (let out = proc orc (spawned w) command penv in
      (out, (emit (Spawn command penv out) w)\<lparr>spawned := Suc (spawned w)\<rparr>))"

section \<open>The runner\<close>

text \<open>
  Every operation takes the world and returns the world it leaves, together with its
  result: \<open>Some v\<close> when the call returns \<open>v\<close>, \<open>None\<close> when it never returns
  because a command it waits for never exits. In the latter case the world returned is the
  one reached when the call blocks.
\<close>

text \<open>
  \<^verbatim>\<open>_run_action\<close>: the action is not executed; the call sleeps and returns
  \<^verbatim>\<open>True\<close>.
\<close>

definition run_action :: "host \<Rightarrow> step \<Rightarrow> env \<Rightarrow> world \<Rightarrow> bool option \<times> world" where
  "run_action orc stp e w = (Some True, emit (ActionCall stp e) w)"

text \<open>
  \<^verbatim>\<open>_run_command\<close>: the whole call of \<^verbatim>\<open>subprocess.run\<close> sits in a
  \<^verbatim>\<open>try\<close> block whose handler catches \<^verbatim>\<open>Exception\<close> and returns \<^verbatim>\<open>False\<close>.
  When the \<^verbatim>\<open>run\<close> entry is \<^verbatim>\<open>None\<close>, \<^verbatim>\<open>subprocess.run(None, shell=True)\<close>
  raises \<^verbatim>\<open>TypeError\<close> before any process is started, which the handler catches as well.
\<close>

definition run_command :: "host \<Rightarrow> step \<Rightarrow> env \<Rightarrow> world \<Rightarrow> bool option \<times> world" where
  "run_command orc stp e w =
     (let w1 = emit (CommandCall stp e) w in
      case s_run stp of
        None \<Rightarrow> (Some False, w1)
      | Some command \<Rightarrow>
          (let (out, w2) = subprocess_run orc command (os_environ orc ++ e) w1 in
           case out of
             Exited returncode err \<Rightarrow>
               (if returncode = 0 then (Some True, w2) else (Some False, w2))
           | Raised ex \<Rightarrow> (Some False, w2)
           | Hangs \<Rightarrow> (None, w2)))"

text \<open>\<^verbatim>\<open>_run_step\<close>.\<close>

definition run_step :: "host \<Rightarrow> step \<Rightarrow> env \<Rightarrow> world \<Rightarrow> bool option \<times> world" where
  "run_step orc stp e w =
     (let (start_time, w1) = time_time orc (emit (StepCall stp e) w);
          step_env = e ++ s_env stp;
          (returned, w2) =
            (if truthy (s_uses stp) then run_action orc stp step_env w1
             else if truthy (s_run stp) then run_command orc stp step_env w1
             else (Some True, w1)) in
      case returned of
        None \<Rightarrow> (None, w2)
      | Some ok \<Rightarrow>
          (let (now, w3) = time_time orc w2;
               elapsed = now - start_time in
           (Some ok, emit (StepDone (s_name stp) elapsed ok) w3)))"

text \<open>\<^verbatim>\<open>_build_environment\<close>.\<close>

definition base_environment :: "workflow \<Rightarrow> job \<Rightarrow> env" where
  "base_environment wfl jb =
     [''CI'' \<mapsto> PStr ''true'',
      ''GITHUB_ACTIONS'' \<mapsto> PStr ''true'',
      ''GITHUB_WORKFLOW'' \<mapsto> PStr (w_name wfl),
      ''GITHUB_JOB'' \<mapsto> PStr (j_id jb),
      ''GITHUB_RUNNER_OS'' \<mapsto> PStr ''Linux'',
      ''RUNNER_OS'' \<mapsto> PStr ''Linux'']"

definition build_environment :: "workflow \<Rightarrow> job \<Rightarrow> env" where
  "build_environment wfl jb =
     (let e = base_environment wfl jb;
          e = e ++ w_env wfl;
          e = e ++ j_env jb in
      (\<lambda>k. map_option (\<lambda>v. PStr (py_str v)) (e k)))"

text \<open>The loop over the steps in \<^verbatim>\<open>_run_job\<close>, and \<^verbatim>\<open>_run_job\<close> itself.\<close>

fun run_steps :: "host \<Rightarrow> env \<Rightarrow> step list \<Rightarrow> world \<Rightarrow> bool option \<times> world" where
  "run_steps orc e [] w = (Some True, w)"
| "run_steps orc e (stp # rest) w =
     (let (returned, w') = run_step orc stp e w in
      case returned of
        None \<Rightarrow> (None, w')
      | Some ok \<Rightarrow> if \<not> ok then (Some False, w') else run_steps orc e rest w')"

definition run_job :: "host \<Rightarrow> workflow \<Rightarrow> job \<Rightarrow> world \<Rightarrow> bool option \<times> world" where
  "run_job orc wfl jb w =
     (let w1 = emit (JobCall jb) w;
          e = build_environment wfl jb in
      run_steps orc e (j_steps jb) w1)"

record result =
  success :: bool
  error :: "string option"
  total_time :: real

text \<open>
  The two error messages, \<^verbatim>\<open>f"Job '{job['id']}' failed"\<close> and
  \<^verbatim>\<open>f"Job '{job_filter}' not found"\<close>.
\<close>

definition job_failed :: "string \<Rightarrow> string" where
  "job_failed i = ''Job '' @ [CHR 0x27] @ i @ [CHR 0x27] @ '' failed''"

definition job_not_found_msg :: "string \<Rightarrow> string" where
  "job_not_found_msg f = ''Job '' @ [CHR 0x27] @ f @ [CHR 0x27] @ '' not found''"

text \<open>The loop over the jobs in \<^verbatim>\<open>run\<close> with the final return, and \<^verbatim>\<open>run\<close>.\<close>

fun run_jobs :: "host \<Rightarrow> workflow \<Rightarrow> real \<Rightarrow> job list \<Rightarrow> world \<Rightarrow> result option \<times> world" where
  "run_jobs orc wfl start_time [] w =
     (let (now, w') = time_time orc w in
      (Some \<lparr>success = True, error = None, total_time = now - start_time\<rparr>, w'))"
| "run_jobs orc wfl start_time (jb # rest) w =
     (let (returned, w') = run_job orc wfl jb w in
      case returned of
        None \<Rightarrow> (None, w')
      | Some ok \<Rightarrow>
          if \<not> ok then
            (let (now, w'') = time_time orc w' in
             (Some \<lparr>success = False,
                     error = Some (job_failed (j_id jb)),
                     total_time = now - start_time\<rparr>, w''))
          else run_jobs orc wfl start_time rest w')"

definition run :: "host \<Rightarrow> workflow \<Rightarrow> string option \<Rightarrow> world \<Rightarrow> result option \<times> world" where
  "run orc wfl job_filter w =
     (let (start_time, w1) = time_time orc w;
          jobs_to_run = w_jobs wfl in
      case job_filter of
        None \<Rightarrow> run_jobs orc wfl start_time jobs_to_run w1
      | Some f \<Rightarrow>
          if f \<noteq> [] then
            (let jobs_to_run = filter (\<lambda>j. j_id j = f) jobs_to_run in
             if jobs_to_run = [] then
               (Some \<lparr>success = False,
                       error = Some (job_not_found_msg f),
                       total_time = 0\<rparr>, w1)
             else run_jobs orc wfl start_time jobs_to_run w1)
          else run_jobs orc wfl start_time jobs_to_run w1)"

section \<open>Reading a trace\<close>

text \<open>
  The events a computation adds to the trace, the jobs and the steps dispatched in a list
  of events (in order), and the events that report a failed step.
\<close>

definition new_events :: "world \<Rightarrow> world \<Rightarrow> event list" where
  "new_events w w' = drop (length (trace w)) (trace w')"

fun job_calls :: "event list \<Rightarrow> job list" where
  "job_calls [] = []"
| "job_calls (JobCall jb # es) = jb # job_calls es"
| "job_calls (x # es) = job_calls es"

fun step_calls :: "event list \<Rightarrow> step list" where
  "step_calls [] = []"
| "step_calls (StepCall stp e # es) = stp # step_calls es"
| "step_calls (x # es) = step_calls es"

fun failed :: "event \<Rightarrow> bool" where
  "failed (StepDone n t ok) = (\<not> ok)"
| "failed x = False"


text \<open>
  The value of the local variable \<^verbatim>\<open>jobs_to_run\<close> of \<^verbatim>\<open>run\<close> when the loop over
  the jobs is reached.
\<close>

definition jobs_to_run :: "workflow \<Rightarrow> string option \<Rightarrow> job list" where
  "jobs_to_run wfl job_filter =
     (case job_filter of
        None \<Rightarrow> w_jobs wfl
      | Some f \<Rightarrow> if f \<noteq> [] then filter (\<lambda>j. j_id j = f) (w_jobs wfl) else w_jobs wfl)"

text \<open>
  Shapes of the list of events added by the loop over the jobs \<open>js\<close>: every job ran to
  the end; job \<open>jb\<close> failed at one of its steps; the run is blocked in a step.
\<close>

definition ok_shape :: "job list \<Rightarrow> event list \<Rightarrow> bool" where
  "ok_shape js evs \<longleftrightarrow>
     job_calls evs = js \<and> step_calls evs = concat (map j_steps js) \<and> (\<forall>x\<in>set evs. \<not> failed x)"

definition fail_shape :: "job list \<Rightarrow> event list \<Rightarrow> job \<Rightarrow> bool" where
  "fail_shape js evs jb \<longleftrightarrow>
     (\<exists>js1 js2 ss1 s ss2 pre t.
        js = js1 @ jb # js2 \<and> j_steps jb = ss1 @ s # ss2 \<and>
        evs = pre @ [StepDone (s_name s) t False] \<and> (\<forall>x\<in>set pre. \<not> failed x) \<and>
        job_calls pre = js1 @ [jb] \<and>
        step_calls pre = concat (map j_steps js1) @ ss1 @ [s])"

definition hang_shape :: "job list \<Rightarrow> event list \<Rightarrow> bool" where
  "hang_shape js evs \<longleftrightarrow>
     (\<forall>x\<in>set evs. \<not> failed x) \<and>
     (\<exists>js1 jb js2 ss1 s ss2.
        js = js1 @ jb # js2 \<and> j_steps jb = ss1 @ s # ss2 \<and>
        job_calls evs = js1 @ [jb] \<and>
        step_calls evs = concat (map j_steps js1) @ ss1 @ [s])"

definition jobs_post :: "host \<Rightarrow> real \<Rightarrow> job list \<Rightarrow> world \<Rightarrow> result option \<Rightarrow> world \<Rightarrow> event list \<Rightarrow> bool" where
  "jobs_post orc t0 js w ro w' evs \<longleftrightarrow>
     trace w' = trace w @ evs \<and> ticks w \<le> ticks w' \<and>
     (case ro of
        None \<Rightarrow> hang_shape js evs
      | Some r \<Rightarrow>
          ticks w < ticks w' \<and> total_time r = clock orc (ticks w' - 1) - t0 \<and>
          (if success r then error r = None \<and> ok_shape js evs
           else \<exists>jb. error r = Some (job_failed (j_id jb)) \<and>
                     fail_shape js evs jb))"

section \<open>The loader\<close>

text \<open>
  \<^verbatim>\<open>parser.py\<close>. A YAML document as \<^verbatim>\<open>yaml.safe_load\<close> returns it; keys of
  mappings are taken to be strings and floating point values are left out. The YAML parser
  itself is a parameter of \<^verbatim>\<open>parse\<close>: it returns the document or the message of a
  \<^verbatim>\<open>YAMLError\<close>. The path either does not exist, or exists and cannot be opened or
  read (a directory, a file without read permission), or holds a text.
\<close>

datatype yaml =
    YNull | YBool bool | YInt int | YStr string
  | YList "yaml list" | YMap "(string \<times> yaml) list"

datatype parse_error =
    FileNotFoundError string
  | ValueError string
  | OSError string
  | AttributeError string
  | TypeError string

datatype path_state = Missing | Unreadable string | Holds string

record parsed_step =
  ps_name :: yaml
  ps_uses :: yaml
  ps_run :: yaml
  ps_env :: yaml
  ps_with :: yaml

record parsed_job =
  pj_id :: string
  pj_name :: yaml
  pj_runs_on :: yaml
  pj_env :: yaml
  pj_steps :: "parsed_step list"

record parsed_workflow =
  pw_name :: yaml
  pw_env :: yaml
  pw_jobs :: "parsed_job list"

text \<open>
  \<^verbatim>\<open>d.get(k, default)\<close>, the name of a value's type as error messages give it, and
  what \<^verbatim>\<open>for x in v\<close> iterates over (a \<^verbatim>\<open>TypeError\<close> for a value that is not
  iterable).
\<close>

definition py_get :: "(string \<times> yaml) list \<Rightarrow> string \<Rightarrow> yaml \<Rightarrow> yaml" where
  "py_get d k dflt = (case map_of d k of Some v \<Rightarrow> v | None \<Rightarrow> dflt)"

fun type_name :: "yaml \<Rightarrow> string" where
  "type_name YNull = ''NoneType''"
| "type_name (YBool b) = ''bool''"
| "type_name (YInt i) = ''int''"
| "type_name (YStr s) = ''str''"
| "type_name (YList xs) = ''list''"
| "type_name (YMap d) = ''dict''"

fun py_iter :: "yaml \<Rightarrow> parse_error + yaml list" where
  "py_iter (YList xs) = Inr xs"
| "py_iter (YMap d) = Inr (map (\<lambda>(k, v). YStr k) d)"
| "py_iter (YStr s) = Inr (map (\<lambda>c. YStr [c]) s)"
| "py_iter v = Inl (TypeError ([CHR 0x27] @ type_name v @ [CHR 0x27] @ '' object is not iterable''))"

text \<open>
  The loop over the steps of a job, the loop over \<^verbatim>\<open>jobs.items()\<close> and \<^verbatim>\<open>parse\<close>.
  Entries that are not mappings are skipped, as the \<^verbatim>\<open>continue\<close> statements do.
\<close>

fun parse_steps :: "yaml list \<Rightarrow> parsed_step list" where
  "parse_steps [] = []"
| "parse_steps (YMap stp # rest) =
     \<lparr>ps_name = py_get stp ''name'' (py_get stp ''uses'' (py_get stp ''run'' (YStr ''Unnamed step''))),
      ps_uses = py_get stp ''uses'' YNull,
      ps_run = py_get stp ''run'' YNull,
      ps_env = py_get stp ''env'' (YMap []),
      ps_with = py_get stp ''with'' (YMap [])\<rparr> # parse_steps rest"
| "parse_steps (v # rest) = parse_steps rest"

fun parse_jobs :: "(string \<times> yaml) list \<Rightarrow> parse_error + parsed_job list" where
  "parse_jobs [] = Inr []"
| "parse_jobs ((job_id, YMap job_data) # rest) =
     (case py_iter (py_get job_data ''steps'' (YList [])) of
        Inl err \<Rightarrow> Inl err
      | Inr steps \<Rightarrow>
          (case parse_jobs rest of
             Inl err \<Rightarrow> Inl err
           | Inr parsed \<Rightarrow>
               Inr (\<lparr>pj_id = job_id,
                     pj_name = py_get job_data ''name'' (YStr job_id),
                     pj_runs_on = py_get job_data ''runs-on'' (YStr ''ubuntu-latest''),
                     pj_env = py_get job_data ''env'' (YMap []),
                     pj_steps = parse_steps steps\<rparr> # parsed)))"
| "parse_jobs ((job_id, v) # rest) = parse_jobs rest"

definition parse ::
  "(string \<Rightarrow> string + yaml) \<Rightarrow> string \<Rightarrow> string \<Rightarrow> path_state \<Rightarrow> parse_error + parsed_workflow" where
  "parse safe_load path stem state =
     (case state of
        Missing \<Rightarrow> Inl (FileNotFoundError (''Workflow file not found: '' @ path))
      | Unreadable err \<Rightarrow> Inl (OSError err)
      | Holds text \<Rightarrow>
          (case safe_load text of
             Inl err \<Rightarrow> Inl (ValueError (''Invalid YAML in workflow file: '' @ err))
           | Inr (YMap data) \<Rightarrow>
               (let workflow_name = py_get data ''name'' (YStr stem);
                    jobs = py_get data ''jobs'' (YMap []);
                    env = py_get data ''env'' (YMap []) in
                case jobs of
                  YMap items \<Rightarrow>
                    (case parse_jobs items of
                       Inl err \<Rightarrow> Inl err
                     | Inr parsed_jobs \<Rightarrow>
                         Inr \<lparr>pw_name = workflow_name, pw_env = env, pw_jobs = parsed_jobs\<rparr>)
                | other \<Rightarrow>
                    Inl (AttributeError ([CHR 0x27] @ type_name other @ [CHR 0x27] @
                           '' object has no attribute '' @ [CHR 0x27] @ ''items'' @ [CHR 0x27])))
           | Inr other \<Rightarrow> Inl (ValueError ''Workflow file must contain a YAML dictionary'')))"

text \<open>A YAML parser that knows a few documents, for concrete runs of \<^verbatim>\<open>parse\<close>.\<close>

definition demo_load :: "string \<Rightarrow> string + yaml" where
  "demo_load text =
     (if text = ''{name: CI, jobs: [build]}''
        then Inr (YMap [(''name'', YStr ''CI''), (''jobs'', YList [YStr ''build''])])
      else if text = ''{name: CI, jobs: {build: {steps: }}}''
        then Inr (YMap [(''name'', YStr ''CI''),
                        (''jobs'', YMap [(''build'', YMap [(''steps'', YNull)])])])
      else if text = ''{name: CI, jobs: {build: {steps: [{run: make}]}}}''
        then Inr (YMap [(''name'', YStr ''CI''),
                        (''jobs'', YMap [(''build'',
                           YMap [(''steps'', YList [YMap [(''run'', YStr ''make'')]])])])])
      else if text = ''- a''
        then Inr (YList [YStr ''a''])
      else Inl ''while parsing a flow node'')"

section \<open>A concrete workflow\<close>

text \<open>
  The workflow of the specification's example, with a second step in job \<open>b\<close> and a third
  job, on a host whose clock advances by one second per reading and on which the command
  \<^verbatim>\<open>exit 1\<close> exits with code 1, \<^verbatim>\<open>nosuch\<close> cannot be started, \<^verbatim>\<open>sleep inf\<close> never
  exits and every other command exits with code 0.
\<close>

definition demo_host :: host where
  "demo_host =
     \<lparr>clock = (\<lambda>n. real n),
      os_environ = [''PATH'' \<mapsto> PStr ''/usr/bin''],
      proc = (\<lambda>n command e.
                if command = ''exit 1'' then Exited 1 ''boom''
                else if command = ''nosuch'' then Raised (Exception ''cannot start'')
                else if command = ''sleep inf'' then Hangs
                else Exited 0 [])\<rparr>"

definition fresh :: world where
  "fresh = \<lparr>ticks = 0, spawned = 0, trace = []\<rparr>"

definition step_exit0 :: step where
  "step_exit0 = \<lparr>s_name = ''exit 0'', s_uses = None, s_run = Some ''exit 0'',
                  s_env = Map.empty, s_with = Map.empty\<rparr>"

definition step_exit1 :: step where
  "step_exit1 = \<lparr>s_name = ''exit 1'', s_uses = None, s_run = Some ''exit 1'',
                  s_env = Map.empty, s_with = Map.empty\<rparr>"

definition job_a :: job where
  "job_a = \<lparr>j_id = ''a'', j_name = ''a'', j_runs_on = ''ubuntu-latest'',
             j_env = Map.empty, j_steps = [step_exit0]\<rparr>"

definition job_b :: job where
  "job_b = \<lparr>j_id = ''b'', j_name = ''b'', j_runs_on = ''ubuntu-latest'',
             j_env = Map.empty, j_steps = [step_exit1, step_exit0]\<rparr>"

definition job_c :: job where
  "job_c = \<lparr>j_id = ''c'', j_name = ''c'', j_runs_on = ''ubuntu-latest'',
             j_env = Map.empty, j_steps = [step_exit0]\<rparr>"

definition demo_workflow :: workflow where
  "demo_workflow = \<lparr>w_name = ''W'', w_env = Map.empty, w_jobs = [job_a, job_b, job_c]\<rparr>"


text \<open>
  A workflow in which two jobs have the same id, the first of them failing, and a workflow
  in which every step succeeds.
\<close>

definition job_b2 :: job where
  "job_b2 = \<lparr>j_id = ''b'', j_name = ''second b'', j_runs_on = ''ubuntu-latest'',
              j_env = Map.empty, j_steps = [step_exit0]\<rparr>"

definition dup_workflow :: workflow where
  "dup_workflow = \<lparr>w_name = ''D'', w_env = Map.empty, w_jobs = [job_a, job_b, job_b2]\<rparr>"

definition passing_workflow :: workflow where
  "passing_workflow = \<lparr>w_name = ''P'', w_env = Map.empty, w_jobs = [job_a, job_c]\<rparr>"

text \<open>A workflow with a step whose command cannot be started.\<close>

definition step_nosuch :: step where
  "step_nosuch = \<lparr>s_name = ''nosuch'', s_uses = None, s_run = Some ''nosuch'',
                   s_env = Map.empty, s_with = Map.empty\<rparr>"

definition job_n :: job where
  "job_n = \<lparr>j_id = ''n'', j_name = ''n'', j_runs_on = ''ubuntu-latest'',
             j_env = Map.empty, j_steps = [step_nosuch, step_exit0]\<rparr>"

definition raise_workflow :: workflow where
  "raise_workflow = \<lparr>w_name = ''R'', w_env = Map.empty, w_jobs = [job_a, job_n, job_c]\<rparr>"

text \<open>
  A workflow with variables at the workflow, job and step level; some values are integers,
  as a YAML document gives them for \<^verbatim>\<open>PORT: 8080\<close>.
\<close>

definition env_step :: step where
  "env_step = \<lparr>s_name = ''show'', s_uses = None, s_run = Some ''echo $K'',
                s_env = [''K'' \<mapsto> PStr ''step'', ''PORT'' \<mapsto> PInt 8080], s_with = Map.empty\<rparr>"

definition env_job :: job where
  "env_job = \<lparr>j_id = ''e'', j_name = ''e'', j_runs_on = ''ubuntu-latest'',
               j_env = [''K'' \<mapsto> PStr ''job'', ''J'' \<mapsto> PStr ''job'', ''RETRIES'' \<mapsto> PInt 3],
               j_steps = [env_step]\<rparr>"

definition env_workflow :: workflow where
  "env_workflow = \<lparr>w_name = ''E'',
                    w_env = [''K'' \<mapsto> PStr ''wf'', ''J'' \<mapsto> PStr ''wf'', ''W'' \<mapsto> PStr ''wf'',
                             ''CI'' \<mapsto> PStr ''false''],
                    w_jobs = [env_job]\<rparr>"

section \<open>What a run adds to the trace\<close>

lemma job_calls_append: "job_calls (xs @ ys) = job_calls xs @ job_calls ys"
  by (induction xs rule: job_calls.induct) simp_all

lemma step_calls_append: "step_calls (xs @ ys) = step_calls xs @ step_calls ys"
  by (induction xs rule: step_calls.induct) simp_all

lemma new_events_append: "trace w' = trace w @ evs \<Longrightarrow> new_events w w' = evs"
  by (simp add: new_events_def)

text \<open>
  Every operation only appends events. A step adds its own call, the events of the branch
  it takes, none of which reports a failure or dispatches anything, and, when it returns,
  the report of its outcome.
\<close>

lemma run_command_events:
  assumes "run_command orc s e w = (ro, w')"
  shows "\<exists>mid. trace w' = trace w @ CommandCall s e # mid \<and> job_calls mid = [] \<and> step_calls mid = []
           \<and> (\<forall>x\<in>set mid. \<not> failed x) \<and> ticks w' = ticks w"
  using assms
  by (auto simp: run_command_def subprocess_run_def emit_def Let_def
           split: option.splits proc_outcome.splits if_splits)

lemma run_step_events:
  assumes "run_step orc s e w = (ro, w')"
  shows "\<exists>mid. job_calls mid = [] \<and> step_calls mid = [] \<and> (\<forall>x\<in>set mid. \<not> failed x) \<and>
           ticks w \<le> ticks w' \<and>
           (ro = None \<longrightarrow> trace w' = trace w @ StepCall s e # mid) \<and>
           (\<forall>ok. ro = Some ok \<longrightarrow>
              (\<exists>t. trace w' = trace w @ StepCall s e # mid @ [StepDone (s_name s) t ok]))"
proof (cases "truthy (s_uses s)")
  case True
  with assms show ?thesis
    by (intro exI[of _ "[ActionCall s (e ++ s_env s)]"])
       (auto simp: run_step_def run_action_def time_time_def emit_def Let_def)
next
  case False
  show ?thesis
  proof (cases "truthy (s_run s)")
    case True
    obtain r2 w2 where
      c: "run_command orc s (e ++ s_env s) (w\<lparr>trace := trace w @ [StepCall s e], ticks := Suc (ticks w)\<rparr>) = (r2, w2)"
      by force
    from run_command_events[OF c] obtain mid where
      m: "trace w2 = trace w @ StepCall s e # CommandCall s (e ++ s_env s) # mid"
         "job_calls mid = []" "step_calls mid = []" "\<forall>x\<in>set mid. \<not> failed x" "ticks w2 = Suc (ticks w)"
      by auto
    let ?mid = "CommandCall s (e ++ s_env s) # mid"
    have q: "job_calls ?mid = []" "step_calls ?mid = []" "\<forall>x\<in>set ?mid. \<not> failed x"
      using m by simp_all
    from assms False True c have
      "(ro = None \<longrightarrow> trace w' = trace w @ StepCall s e # ?mid) \<and>
       (\<forall>ok. ro = Some ok \<longrightarrow> (\<exists>t. trace w' = trace w @ StepCall s e # ?mid @ [StepDone (s_name s) t ok])) \<and>
       ticks w \<le> ticks w'"
      using m(1) m(5)
      by (cases r2) (auto simp: run_step_def time_time_def emit_def Let_def)
    with q show ?thesis by blast
  next
    case F2: False
    with False assms show ?thesis
      by (intro exI[of _ "[]"])
         (auto simp: run_step_def time_time_def emit_def Let_def)
  qed
qed

text \<open>
  The loop over the steps: when it returns \<^verbatim>\<open>True\<close> all steps were dispatched and
  none failed; when it returns \<^verbatim>\<open>False\<close> the last event reports the failure of the
  last step dispatched; when it does not return it is blocked in the last step dispatched.
\<close>

lemma run_steps_events:
  assumes "run_steps orc e ss w = (ro, w')"
  shows "\<exists>evs. trace w' = trace w @ evs \<and> job_calls evs = [] \<and> ticks w \<le> ticks w' \<and>
           (ro = Some True \<longrightarrow> step_calls evs = ss \<and> (\<forall>x\<in>set evs. \<not> failed x)) \<and>
           (ro = Some False \<longrightarrow>
              (\<exists>ss1 s ss2 pre t. ss = ss1 @ s # ss2 \<and> evs = pre @ [StepDone (s_name s) t False] \<and>
                   (\<forall>x\<in>set pre. \<not> failed x) \<and> step_calls pre = ss1 @ [s])) \<and>
           (ro = None \<longrightarrow> (\<forall>x\<in>set evs. \<not> failed x) \<and>
              (\<exists>ss1 s ss2. ss = ss1 @ s # ss2 \<and> step_calls evs = ss1 @ [s]))"
  using assms
proof (induction ss arbitrary: w)
  case Nil
  then show ?case by auto
next
  case (Cons s rest)
  obtain r1 w1 where st: "run_step orc s e w = (r1, w1)" by force
  from run_step_events[OF st] obtain mid where
    mid: "job_calls mid = []" "step_calls mid = []" "\<forall>x\<in>set mid. \<not> failed x"
    and tk: "ticks w \<le> ticks w1"
    and trN: "r1 = None \<longrightarrow> trace w1 = trace w @ StepCall s e # mid"
    and trS: "\<forall>ok. r1 = Some ok \<longrightarrow>
              (\<exists>t. trace w1 = trace w @ StepCall s e # mid @ [StepDone (s_name s) t ok])"
    by blast
  let ?pre = "StepCall s e # mid"
  have pre: "job_calls ?pre = []" "step_calls ?pre = [s]" "\<forall>x\<in>set ?pre. \<not> failed x"
    using mid by simp_all
  show ?case
  proof (cases r1)
    case None
    with Cons.prems st have r: "ro = None" "w' = w1" by auto
    have "s # rest = [] @ s # rest \<and> step_calls ?pre = [] @ [s]" using pre by simp
    then have "\<exists>ss1 s' ss2. s # rest = ss1 @ s' # ss2 \<and> step_calls ?pre = ss1 @ [s']" by blast
    with r trN None pre tk show ?thesis
      by (intro exI[of _ ?pre]) simp
  next
    case (Some ok1)
    with trS obtain t where tr: "trace w1 = trace w @ ?pre @ [StepDone (s_name s) t ok1]" by auto
    let ?evs1 = "?pre @ [StepDone (s_name s) t ok1]"
    show ?thesis
    proof (cases ok1)
      case False
      with Cons.prems st Some have r: "ro = Some False" "w' = w1" by auto
      have "s # rest = [] @ s # rest \<and> ?evs1 = ?pre @ [StepDone (s_name s) t False] \<and>
            (\<forall>x\<in>set ?pre. \<not> failed x) \<and> step_calls ?pre = [] @ [s]"
        using pre False by simp
      then have ex: "\<exists>ss1 s' ss2 pre t'. s # rest = ss1 @ s' # ss2 \<and>
           ?evs1 = pre @ [StepDone (s_name s') t' False] \<and>
           (\<forall>x\<in>set pre. \<not> failed x) \<and> step_calls pre = ss1 @ [s']"
        by blast
      have "job_calls ?evs1 = []" using pre by (simp add: job_calls_append)
      with ex r tr tk show ?thesis
        by (intro exI[of _ ?evs1]) simp
    next
      case True
      with Cons.prems st Some have rest: "run_steps orc e rest w1 = (ro, w')" by simp
      from Cons.IH[OF rest] obtain evs where
        e1: "trace w' = trace w1 @ evs" and e2: "job_calls evs = []" and e3: "ticks w1 \<le> ticks w'"
        and eT: "ro = Some True \<longrightarrow> step_calls evs = rest \<and> (\<forall>x\<in>set evs. \<not> failed x)"
        and eF: "ro = Some False \<longrightarrow>
              (\<exists>ss1 s ss2 pre t. rest = ss1 @ s # ss2 \<and> evs = pre @ [StepDone (s_name s) t False] \<and>
                   (\<forall>x\<in>set pre. \<not> failed x) \<and> step_calls pre = ss1 @ [s])"
        and eN: "ro = None \<longrightarrow> (\<forall>x\<in>set evs. \<not> failed x) \<and>
              (\<exists>ss1 s ss2. rest = ss1 @ s # ss2 \<and> step_calls evs = ss1 @ [s])"
        by blast
      have sc1: "step_calls ?evs1 = [s]" using pre by (simp add: step_calls_append)
      have ff1: "\<forall>x\<in>set ?evs1. \<not> failed x" using pre True by simp
      have jc1: "job_calls ?evs1 = []" using pre by (simp add: job_calls_append)
      have h1: "trace w' = trace w @ (?evs1 @ evs)" using e1 tr by simp
      have h2: "job_calls (?evs1 @ evs) = []" using jc1 e2 by (simp only: job_calls_append) simp
      have h3: "ticks w \<le> ticks w'" using tk e3 by simp
      have hT: "ro = Some True \<longrightarrow> step_calls (?evs1 @ evs) = s # rest \<and> (\<forall>x\<in>set (?evs1 @ evs). \<not> failed x)"
        using eT sc1 ff1 by (auto simp: step_calls_append)
      have hF: "ro = Some False \<longrightarrow>
              (\<exists>ss1 s' ss2 pre t'. s # rest = ss1 @ s' # ss2 \<and> ?evs1 @ evs = pre @ [StepDone (s_name s') t' False] \<and>
                   (\<forall>x\<in>set pre. \<not> failed x) \<and> step_calls pre = ss1 @ [s'])"
      proof
        assume "ro = Some False"
        with eF obtain ss1 s' ss2 pre t' where
          p: "rest = ss1 @ s' # ss2" "evs = pre @ [StepDone (s_name s') t' False]"
             "\<forall>x\<in>set pre. \<not> failed x" "step_calls pre = ss1 @ [s']"
          by auto
        have "s # rest = (s # ss1) @ s' # ss2 \<and> ?evs1 @ evs = (?evs1 @ pre) @ [StepDone (s_name s') t' False] \<and>
              (\<forall>x\<in>set (?evs1 @ pre). \<not> failed x) \<and> step_calls (?evs1 @ pre) = (s # ss1) @ [s']"
          using p sc1 ff1 by (auto simp: step_calls_append)
        then show "\<exists>ss1 s' ss2 pre t'. s # rest = ss1 @ s' # ss2 \<and> ?evs1 @ evs = pre @ [StepDone (s_name s') t' False] \<and>
                   (\<forall>x\<in>set pre. \<not> failed x) \<and> step_calls pre = ss1 @ [s']"
          by blast
      qed
      have hN: "ro = None \<longrightarrow> (\<forall>x\<in>set (?evs1 @ evs). \<not> failed x) \<and>
              (\<exists>ss1 s' ss2. s # rest = ss1 @ s' # ss2 \<and> step_calls (?evs1 @ evs) = ss1 @ [s'])"
      proof
        assume "ro = None"
        with eN obtain ss1 s' ss2 where
          p: "\<forall>x\<in>set evs. \<not> failed x" "rest = ss1 @ s' # ss2" "step_calls evs = ss1 @ [s']"
          by auto
        have "s # rest = (s # ss1) @ s' # ss2 \<and> step_calls (?evs1 @ evs) = (s # ss1) @ [s']"
          using p sc1 by (auto simp: step_calls_append)
        then have "\<exists>ss1 s' ss2. s # rest = ss1 @ s' # ss2 \<and> step_calls (?evs1 @ evs) = ss1 @ [s']"
          by blast
        moreover have "\<forall>x\<in>set (?evs1 @ evs). \<not> failed x" using p(1) ff1 by auto
        ultimately show "(\<forall>x\<in>set (?evs1 @ evs). \<not> failed x) \<and>
              (\<exists>ss1 s' ss2. s # rest = ss1 @ s' # ss2 \<and> step_calls (?evs1 @ evs) = ss1 @ [s'])"
          by blast
      qed
      show ?thesis using h1 h2 h3 hT hF hN by blast
    qed
  qed
qed

lemma run_job_events:
  assumes "run_job orc wfl jb w = (ro, w')"
  shows "\<exists>evs. trace w' = trace w @ JobCall jb # evs \<and> job_calls evs = [] \<and> ticks w \<le> ticks w' \<and>
           (ro = Some True \<longrightarrow> step_calls evs = j_steps jb \<and> (\<forall>x\<in>set evs. \<not> failed x)) \<and>
           (ro = Some False \<longrightarrow>
              (\<exists>ss1 s ss2 pre t. j_steps jb = ss1 @ s # ss2 \<and> evs = pre @ [StepDone (s_name s) t False] \<and>
                   (\<forall>x\<in>set pre. \<not> failed x) \<and> step_calls pre = ss1 @ [s])) \<and>
           (ro = None \<longrightarrow> (\<forall>x\<in>set evs. \<not> failed x) \<and>
              (\<exists>ss1 s ss2. j_steps jb = ss1 @ s # ss2 \<and> step_calls evs = ss1 @ [s]))"
proof -
  from assms have "run_steps orc (build_environment wfl jb) (j_steps jb) (emit (JobCall jb) w) = (ro, w')"
    by (simp add: run_job_def Let_def)
  from run_steps_events[OF this] show ?thesis
    by (simp add: emit_def)
qed

text \<open>
  The same for the loop over the jobs, in terms of the three shapes.
\<close>

lemma ok_shape_Cons:
  assumes "job_calls e1 = [jb]" "step_calls e1 = j_steps jb" "\<forall>x\<in>set e1. \<not> failed x"
    and "ok_shape rest evs"
  shows "ok_shape (jb # rest) (e1 @ evs)"
  using assms by (auto simp: ok_shape_def job_calls_append step_calls_append)

lemma fail_shape_Cons:
  assumes a: "job_calls e1 = [jb]" "step_calls e1 = j_steps jb" "\<forall>x\<in>set e1. \<not> failed x"
    and f: "fail_shape rest evs j"
  shows "fail_shape (jb # rest) (e1 @ evs) j"
proof -
  from f obtain js1 js2 ss1 s ss2 pre t where
    p: "rest = js1 @ j # js2" "j_steps j = ss1 @ s # ss2"
       "evs = pre @ [StepDone (s_name s) t False]" "\<forall>x\<in>set pre. \<not> failed x"
       "job_calls pre = js1 @ [j]" "step_calls pre = concat (map j_steps js1) @ ss1 @ [s]"
    unfolding fail_shape_def by blast
  have "jb # rest = (jb # js1) @ j # js2 \<and> j_steps j = ss1 @ s # ss2 \<and>
        e1 @ evs = (e1 @ pre) @ [StepDone (s_name s) t False] \<and>
        (\<forall>x\<in>set (e1 @ pre). \<not> failed x) \<and>
        job_calls (e1 @ pre) = (jb # js1) @ [j] \<and>
        step_calls (e1 @ pre) = concat (map j_steps (jb # js1)) @ ss1 @ [s]"
    using p a by (auto simp: job_calls_append step_calls_append)
  then show ?thesis unfolding fail_shape_def by blast
qed

lemma hang_shape_Cons:
  assumes a: "job_calls e1 = [jb]" "step_calls e1 = j_steps jb" "\<forall>x\<in>set e1. \<not> failed x"
    and f: "hang_shape rest evs"
  shows "hang_shape (jb # rest) (e1 @ evs)"
proof -
  from f obtain js1 j js2 ss1 s ss2 where
    p: "\<forall>x\<in>set evs. \<not> failed x" "rest = js1 @ j # js2" "j_steps j = ss1 @ s # ss2"
       "job_calls evs = js1 @ [j]" "step_calls evs = concat (map j_steps js1) @ ss1 @ [s]"
    unfolding hang_shape_def by blast
  have "jb # rest = (jb # js1) @ j # js2 \<and> j_steps j = ss1 @ s # ss2 \<and>
        job_calls (e1 @ evs) = (jb # js1) @ [j] \<and>
        step_calls (e1 @ evs) = concat (map j_steps (jb # js1)) @ ss1 @ [s]"
    using p a by (auto simp: job_calls_append step_calls_append)
  then have "\<exists>js1 j js2 ss1 s ss2. jb # rest = js1 @ j # js2 \<and> j_steps j = ss1 @ s # ss2 \<and>
        job_calls (e1 @ evs) = js1 @ [j] \<and>
        step_calls (e1 @ evs) = concat (map j_steps js1) @ ss1 @ [s]"
    by blast
  moreover have "\<forall>x\<in>set (e1 @ evs). \<not> failed x" using p(1) a(3) by auto
  ultimately show ?thesis unfolding hang_shape_def by blast
qed

lemma fail_shape_here:
  assumes "job_calls evs1 = []" "j_steps jb = ss1 @ s # ss2"
    "evs1 = pre @ [StepDone (s_name s) t False]"
    "\<forall>x\<in>set pre. \<not> failed x" "step_calls pre = ss1 @ [s]"
  shows "fail_shape (jb # rest) (JobCall jb # evs1) jb"
proof -
  have jcp: "job_calls pre = []" using assms(1,3) by (simp add: job_calls_append)
  have "jb # rest = [] @ jb # rest \<and> j_steps jb = ss1 @ s # ss2 \<and>
        JobCall jb # evs1 = (JobCall jb # pre) @ [StepDone (s_name s) t False] \<and>
        (\<forall>x\<in>set (JobCall jb # pre). \<not> failed x) \<and>
        job_calls (JobCall jb # pre) = [] @ [jb] \<and>
        step_calls (JobCall jb # pre) = concat (map j_steps []) @ ss1 @ [s]"
    using assms jcp by simp
  then show ?thesis unfolding fail_shape_def by blast
qed

lemma hang_shape_here:
  assumes "job_calls evs1 = []" "j_steps jb = ss1 @ s # ss2"
    "\<forall>x\<in>set evs1. \<not> failed x" "step_calls evs1 = ss1 @ [s]"
  shows "hang_shape (jb # rest) (JobCall jb # evs1)"
proof -
  have "jb # rest = [] @ jb # rest \<and> j_steps jb = ss1 @ s # ss2 \<and>
        job_calls (JobCall jb # evs1) = [] @ [jb] \<and>
        step_calls (JobCall jb # evs1) = concat (map j_steps []) @ ss1 @ [s]"
    using assms by simp
  then have "\<exists>js1 j js2 ss1 s ss2. jb # rest = js1 @ j # js2 \<and> j_steps j = ss1 @ s # ss2 \<and>
        job_calls (JobCall jb # evs1) = js1 @ [j] \<and>
        step_calls (JobCall jb # evs1) = concat (map j_steps js1) @ ss1 @ [s]"
    by blast
  moreover have "\<forall>x\<in>set (JobCall jb # evs1). \<not> failed x" using assms(3) by simp
  ultimately show ?thesis unfolding hang_shape_def by blast
qed

lemma run_jobs_events:
  assumes "run_jobs orc wfl t0 js w = (ro, w')"
  shows "\<exists>evs. jobs_post orc t0 js w ro w' evs"
  using assms
proof (induction js arbitrary: w)
  case Nil
  then show ?case
    by (intro exI[of _ "[]"]) (auto simp: time_time_def jobs_post_def ok_shape_def)
next
  case (Cons jb rest)
  obtain r1 w1 where jr: "run_job orc wfl jb w = (r1, w1)" by force
  from run_job_events[OF jr] obtain evs1 where
    tr: "trace w1 = trace w @ JobCall jb # evs1" and jc: "job_calls evs1 = []"
    and tk: "ticks w \<le> ticks w1"
    and sT: "r1 = Some True \<longrightarrow> step_calls evs1 = j_steps jb \<and> (\<forall>x\<in>set evs1. \<not> failed x)"
    and sF: "r1 = Some False \<longrightarrow>
              (\<exists>ss1 s ss2 pre t. j_steps jb = ss1 @ s # ss2 \<and> evs1 = pre @ [StepDone (s_name s) t False] \<and>
                   (\<forall>x\<in>set pre. \<not> failed x) \<and> step_calls pre = ss1 @ [s])"
    and sN: "r1 = None \<longrightarrow> (\<forall>x\<in>set evs1. \<not> failed x) \<and>
              (\<exists>ss1 s ss2. j_steps jb = ss1 @ s # ss2 \<and> step_calls evs1 = ss1 @ [s])"
    by blast
  let ?evs1 = "JobCall jb # evs1"
  have j1: "job_calls ?evs1 = [jb]" using jc by simp
  consider (hang) "r1 = None" | (fail) "r1 = Some False" | (ok) "r1 = Some True"
    by (cases r1) auto
  then show ?case
  proof cases
    case hang
    with Cons.prems jr have r: "ro = None" "w' = w1" by auto
    from sN hang obtain ss1 s ss2 where
      p: "\<forall>x\<in>set evs1. \<not> failed x" "j_steps jb = ss1 @ s # ss2" "step_calls evs1 = ss1 @ [s]"
      by auto
    have "hang_shape (jb # rest) ?evs1" using jc p(2) p(1) p(3) by (rule hang_shape_here)
    then have "jobs_post orc t0 (jb # rest) w ro w' ?evs1"
      using r tr tk by (simp add: jobs_post_def)
    then show ?thesis ..
  next
    case fail
    define r0 where "r0 = \<lparr>success = False,
           error = Some (job_failed (j_id jb)),
           total_time = clock orc (ticks w1) - t0\<rparr>"
    from fail Cons.prems jr have r: "ro = Some r0" and w': "w' = w1\<lparr>ticks := Suc (ticks w1)\<rparr>"
      by (auto simp: time_time_def r0_def)
    have r0: "\<not> success r0" "total_time r0 = clock orc (ticks w1) - t0"
        "error r0 = Some (job_failed (j_id jb))"
      by (simp_all add: r0_def)
    from sF fail obtain ss1 s ss2 pre t where
      p: "j_steps jb = ss1 @ s # ss2" "evs1 = pre @ [StepDone (s_name s) t False]"
         "\<forall>x\<in>set pre. \<not> failed x" "step_calls pre = ss1 @ [s]"
      by auto
    have fs: "fail_shape (jb # rest) ?evs1 jb" using jc p by (rule fail_shape_here)
    have "jobs_post orc t0 (jb # rest) w ro w' ?evs1"
      unfolding jobs_post_def r using r0 fs tr tk w' by auto
    then show ?thesis ..
  next
    case ok
    with Cons.prems jr have rest: "run_jobs orc wfl t0 rest w1 = (ro, w')" by simp
    from sT ok have s1: "step_calls ?evs1 = j_steps jb" and f1: "\<forall>x\<in>set ?evs1. \<not> failed x"
      by simp_all
    from Cons.IH[OF rest] obtain evs where IH: "jobs_post orc t0 rest w1 ro w' evs" ..
    have h1: "trace w' = trace w @ (?evs1 @ evs)" using IH tr by (simp add: jobs_post_def)
    have h2: "ticks w \<le> ticks w'" using IH tk by (simp add: jobs_post_def)
    have "jobs_post orc t0 (jb # rest) w ro w' (?evs1 @ evs)"
    proof (cases ro)
      case None
      with IH have "hang_shape rest evs" by (simp add: jobs_post_def)
      with j1 s1 f1 have "hang_shape (jb # rest) (?evs1 @ evs)" by (rule hang_shape_Cons)
      with None h1 h2 show ?thesis by (simp add: jobs_post_def)
    next
      case (Some r)
      with IH have a: "ticks w1 < ticks w'" "total_time r = clock orc (ticks w' - 1) - t0"
        and b: "if success r then error r = None \<and> ok_shape rest evs
           else \<exists>jb. error r = Some (job_failed (j_id jb)) \<and>
                     fail_shape rest evs jb"
        by (simp_all add: jobs_post_def)
      have c: "if success r then error r = None \<and> ok_shape (jb # rest) (?evs1 @ evs)
           else \<exists>j. error r = Some (job_failed (j_id j)) \<and>
                     fail_shape (jb # rest) (?evs1 @ evs) j"
      proof (cases "success r")
        case True
        with b have "ok_shape rest evs" and e: "error r = None" by simp_all
        with j1 s1 f1 have "ok_shape (jb # rest) (?evs1 @ evs)" by (intro ok_shape_Cons)
        with True e show ?thesis by simp
      next
        case False
        with b obtain j where e: "error r = Some (job_failed (j_id j))"
          and fs: "fail_shape rest evs j" by auto
        from j1 s1 f1 fs have "fail_shape (jb # rest) (?evs1 @ evs) j" by (rule fail_shape_Cons)
        with False e show ?thesis by auto
      qed
      have "ticks w < ticks w'" using tk a(1) by simp
      with Some h1 h2 a(2) c show ?thesis unfolding jobs_post_def by simp
    qed
    then show ?thesis ..
  qed
qed

text \<open>
  \<^verbatim>\<open>run\<close> either stops at once because the filter matches no job, or is the loop
  over the jobs to run, started after one reading of the clock.
\<close>

lemma run_unfold:
  "run orc wfl flt w =
     (if truthy flt \<and> jobs_to_run wfl flt = []
      then (Some \<lparr>success = False, error = Some (job_not_found_msg (the flt)), total_time = 0\<rparr>,
            w\<lparr>ticks := Suc (ticks w)\<rparr>)
      else run_jobs orc wfl (clock orc (ticks w)) (jobs_to_run wfl flt) (w\<lparr>ticks := Suc (ticks w)\<rparr>))"
  by (cases flt) (simp_all add: run_def jobs_to_run_def time_time_def)

lemma run_events:
  assumes "run orc wfl flt w = (ro, w')"
  shows "(truthy flt \<and> jobs_to_run wfl flt = [] \<and> new_events w w' = [] \<and>
          ro = Some \<lparr>success = False, error = Some (job_not_found_msg (the flt)), total_time = 0\<rparr>) \<or>
         (\<not> (truthy flt \<and> jobs_to_run wfl flt = []) \<and>
          jobs_post orc (clock orc (ticks w)) (jobs_to_run wfl flt)
            (w\<lparr>ticks := Suc (ticks w)\<rparr>) ro w' (new_events w w'))"
proof (cases "truthy flt \<and> jobs_to_run wfl flt = []")
  case True
  with assms show ?thesis
    by (auto simp: run_unfold new_events_def)
next
  case False
  with assms have rj: "run_jobs orc wfl (clock orc (ticks w)) (jobs_to_run wfl flt) (w\<lparr>ticks := Suc (ticks w)\<rparr>) = (ro, w')"
    by (simp add: run_unfold)
  from run_jobs_events[OF rj] obtain evs where
    p: "jobs_post orc (clock orc (ticks w)) (jobs_to_run wfl flt) (w\<lparr>ticks := Suc (ticks w)\<rparr>) ro w' evs" ..
  then have "trace w' = trace w @ evs" by (simp add: jobs_post_def)
  then have "new_events w w' = evs" by (rule new_events_append)
  with p False show ?thesis by simp
qed

text \<open>
  Whatever the outcome, the jobs and steps dispatched are the first ones of the jobs to run
  and of their steps.
\<close>

lemma hang_shape_prefix:
  assumes "hang_shape js evs"
  shows "prefix (job_calls evs) js \<and> prefix (step_calls evs) (concat (map j_steps js))"
proof -
  from assms obtain js1 jb js2 ss1 s ss2 where
    p: "js = js1 @ jb # js2" "j_steps jb = ss1 @ s # ss2"
       "job_calls evs = js1 @ [jb]" "step_calls evs = concat (map j_steps js1) @ ss1 @ [s]"
    unfolding hang_shape_def by blast
  have "js = job_calls evs @ js2" using p(1,3) by simp
  moreover have "concat (map j_steps js) = step_calls evs @ (ss2 @ concat (map j_steps js2))"
    using p(1,2,4) by simp
  ultimately show ?thesis unfolding prefix_def by blast
qed

lemma fail_shape_calls:
  assumes "fail_shape js evs jb"
  shows "\<exists>js1 js2 ss1 s ss2. js = js1 @ jb # js2 \<and> j_steps jb = ss1 @ s # ss2 \<and>
           job_calls evs = js1 @ [jb] \<and> step_calls evs = concat (map j_steps js1) @ ss1 @ [s]"
proof -
  from assms obtain js1 js2 ss1 s ss2 pre t where
    p: "js = js1 @ jb # js2" "j_steps jb = ss1 @ s # ss2"
       "evs = pre @ [StepDone (s_name s) t False]"
       "job_calls pre = js1 @ [jb]" "step_calls pre = concat (map j_steps js1) @ ss1 @ [s]"
    unfolding fail_shape_def by blast
  have "js = js1 @ jb # js2 \<and> j_steps jb = ss1 @ s # ss2 \<and>
           job_calls evs = js1 @ [jb] \<and> step_calls evs = concat (map j_steps js1) @ ss1 @ [s]"
    using p by (simp add: job_calls_append step_calls_append)
  then show ?thesis by blast
qed

lemma fail_shape_prefix:
  assumes "fail_shape js evs jb"
  shows "prefix (job_calls evs) js \<and> prefix (step_calls evs) (concat (map j_steps js))"
proof -
  from fail_shape_calls[OF assms] obtain js1 js2 ss1 s ss2 where
    p: "js = js1 @ jb # js2" "j_steps jb = ss1 @ s # ss2"
       "job_calls evs = js1 @ [jb]" "step_calls evs = concat (map j_steps js1) @ ss1 @ [s]"
    by blast
  have "js = job_calls evs @ js2" using p(1,3) by simp
  moreover have "concat (map j_steps js) = step_calls evs @ (ss2 @ concat (map j_steps js2))"
    using p(1,2,4) by simp
  ultimately show ?thesis unfolding prefix_def by blast
qed

lemma dispatched_prefix:
  assumes "jobs_post orc t0 js w ro w' evs"
  shows "prefix (job_calls evs) js \<and> prefix (step_calls evs) (concat (map j_steps js))"
proof (cases ro)
  case None
  with assms have "hang_shape js evs" by (simp add: jobs_post_def)
  then show ?thesis by (rule hang_shape_prefix)
next
  case (Some r)
  show ?thesis
  proof (cases "success r")
    case True
    with assms Some have "ok_shape js evs" by (simp add: jobs_post_def)
    then show ?thesis by (simp add: ok_shape_def)
  next
    case False
    with assms Some obtain jb where "fail_shape js evs jb" by (auto simp: jobs_post_def)
    then show ?thesis by (rule fail_shape_prefix)
  qed
qed

lemma messages_differ: "job_failed i \<noteq> job_not_found_msg f"
proof
  assume "job_failed i = job_not_found_msg f"
  then have "rev (job_failed i) = rev (job_not_found_msg f)" by simp
  then show False by (simp add: job_failed_def job_not_found_msg_def)
qed



lemma new_events_split:
  assumes "trace w1 = trace w @ a" and "trace w' = trace w1 @ b"
  shows "new_events w w' = a @ b" and "new_events w w1 = a" and "new_events w1 w' = b"
  using assms by (simp_all add: new_events_def)

lemma run_step_trace:
  assumes "run_step orc s e w = (ro, w')"
  shows "\<exists>evs. trace w' = trace w @ evs \<and> (ro = Some False \<longrightarrow> (\<exists>y\<in>set evs. failed y))"
proof -
  from run_step_events[OF assms] obtain mid where
    n: "ro = None \<longrightarrow> trace w' = trace w @ StepCall s e # mid"
    and so: "\<forall>ok. ro = Some ok \<longrightarrow>
              (\<exists>t. trace w' = trace w @ StepCall s e # mid @ [StepDone (s_name s) t ok])"
    by blast
  show ?thesis
  proof (cases ro)
    case None
    with n show ?thesis by simp
  next
    case (Some ok)
    with so obtain t where "trace w' = trace w @ (StepCall s e # mid @ [StepDone (s_name s) t ok])"
      by auto
    moreover have "ok = False \<longrightarrow> (\<exists>y\<in>set (StepCall s e # mid @ [StepDone (s_name s) t ok]). failed y)"
      by auto
    ultimately show ?thesis using Some by blast
  qed
qed

lemma run_steps_trace:
  assumes "run_steps orc e ss w = (ro, w')"
  shows "\<exists>evs. trace w' = trace w @ evs"
  using run_steps_events[OF assms] by blast







text \<open>
  The job environment by key, and the calls of \<^verbatim>\<open>_run_command\<close> made by a job.
\<close>

lemma build_environment_lookup:
  "build_environment wfl jb K =
     (case j_env jb K of
        Some v \<Rightarrow> Some (PStr (py_str v))
      | None \<Rightarrow>
          (case w_env wfl K of
             Some v \<Rightarrow> Some (PStr (py_str v))
           | None \<Rightarrow>
               (if K = ''CI'' then Some (PStr ''true'')
                else if K = ''GITHUB_ACTIONS'' then Some (PStr ''true'')
                else if K = ''GITHUB_WORKFLOW'' then Some (PStr (w_name wfl))
                else if K = ''GITHUB_JOB'' then Some (PStr (j_id jb))
                else if K = ''GITHUB_RUNNER_OS'' then Some (PStr ''Linux'')
                else if K = ''RUNNER_OS'' then Some (PStr ''Linux'')
                else None)))"
proof (cases "j_env jb K")
  case (Some v)
  then show ?thesis by (simp add: build_environment_def map_add_def Let_def)
next
  case None
  show ?thesis
  proof (cases "w_env wfl K")
    case (Some v)
    with None show ?thesis by (simp add: build_environment_def map_add_def Let_def)
  next
    case N2: None
    have "base_environment wfl jb K =
               (if K = ''CI'' then Some (PStr ''true'')
                else if K = ''GITHUB_ACTIONS'' then Some (PStr ''true'')
                else if K = ''GITHUB_WORKFLOW'' then Some (PStr (w_name wfl))
                else if K = ''GITHUB_JOB'' then Some (PStr (j_id jb))
                else if K = ''GITHUB_RUNNER_OS'' then Some (PStr ''Linux'')
                else if K = ''RUNNER_OS'' then Some (PStr ''Linux'')
                else None)"
      unfolding base_environment_def by (simp only: fun_upd_apply) simp
    with None N2 show ?thesis
      by (simp add: build_environment_def map_add_def Let_def del: fun_upd_apply)
  qed
qed

lemma build_environment_strings:
  "build_environment wfl jb K = Some v \<Longrightarrow> is_str v"
  by (auto simp: build_environment_def Let_def)

lemma run_command_calls:
  assumes "run_command orc s e w = (ro, w')" and "CommandCall s' env \<in> set (new_events w w')"
  shows "s' = s \<and> env = e"
  using assms
  by (auto simp: run_command_def subprocess_run_def emit_def Let_def new_events_def
           split: option.splits proc_outcome.splits if_splits)

lemma run_step_calls:
  assumes "run_step orc s e w = (ro, w')" and "CommandCall s' env \<in> set (new_events w w')"
  shows "s' = s \<and> env = e ++ s_env s"
proof (cases "truthy (s_uses s)")
  case True
  with assms show ?thesis
    by (auto simp: run_step_def run_action_def time_time_def emit_def Let_def new_events_def)
next
  case False
  show ?thesis
  proof (cases "truthy (s_run s)")
    case F2: False
    with False assms show ?thesis
      by (auto simp: run_step_def time_time_def emit_def Let_def new_events_def)
  next
    case True
    let ?w1 = "w\<lparr>trace := trace w @ [StepCall s e], ticks := Suc (ticks w)\<rparr>"
    obtain r2 w2 where c: "run_command orc s (e ++ s_env s) ?w1 = (r2, w2)" by force
    from run_command_events[OF c] obtain mid where
      m: "trace w2 = trace ?w1 @ CommandCall s (e ++ s_env s) # mid" by blast
    have "set (new_events w w') \<subseteq> {StepCall s e} \<union> set (new_events ?w1 w2) \<union> {y. \<exists>n t ok. y = StepDone n t ok}"
      using assms(1) False True c m
      by (cases r2) (auto simp: run_step_def time_time_def emit_def Let_def new_events_def)
    with assms(2) have "CommandCall s' env \<in> set (new_events ?w1 w2)" by auto
    from run_command_calls[OF c this] show ?thesis .
  qed
qed

lemma run_steps_calls:
  assumes "run_steps orc e ss w = (ro, w')" and "CommandCall s' env \<in> set (new_events w w')"
  shows "s' \<in> set ss \<and> env = e ++ s_env s'"
  using assms
proof (induction ss arbitrary: w)
  case Nil
  then show ?case by (simp add: new_events_def)
next
  case (Cons s rest)
  obtain r1 w1 where st: "run_step orc s e w = (r1, w1)" by force
  from run_step_trace[OF st] obtain evs1 where t1: "trace w1 = trace w @ evs1" by blast
  have n1: "new_events w w1 = evs1" using t1 by (rule new_events_append)
  show ?case
  proof (cases "r1 = Some True")
    case False
    with Cons.prems(1) st have w': "w' = w1" by (cases r1) (auto split: if_splits)
    with Cons.prems(2) have "CommandCall s' env \<in> set (new_events w w1)" by simp
    from run_step_calls[OF st this] show ?thesis by simp
  next
    case True
    with Cons.prems(1) st have rest: "run_steps orc e rest w1 = (ro, w')" by simp
    from run_steps_trace[OF rest] obtain evs2 where t2: "trace w' = trace w1 @ evs2" by blast
    note sp = new_events_split[OF t1 t2]
    from Cons.prems(2) sp(1) have "CommandCall s' env \<in> set evs1 \<or> CommandCall s' env \<in> set evs2"
      by simp
    then show ?thesis
    proof
      assume "CommandCall s' env \<in> set evs1"
      with n1 have "CommandCall s' env \<in> set (new_events w w1)" by simp
      from run_step_calls[OF st this] show ?thesis by simp
    next
      assume "CommandCall s' env \<in> set evs2"
      with sp(3) have "CommandCall s' env \<in> set (new_events w1 w')" by simp
      from Cons.IH[OF rest this] show ?thesis by simp
    qed
  qed
qed

lemma run_job_calls:
  assumes "run_job orc wfl jb w = (ro, w')" and "CommandCall s env \<in> set (new_events w w')"
  shows "s \<in> set (j_steps jb) \<and> env = build_environment wfl jb ++ s_env s"
proof -
  let ?w1 = "emit (JobCall jb) w"
  from assms(1) have rs: "run_steps orc (build_environment wfl jb) (j_steps jb) ?w1 = (ro, w')"
    by (simp add: run_job_def Let_def)
  have t1: "trace ?w1 = trace w @ [JobCall jb]" by (simp add: emit_def)
  from run_steps_trace[OF rs] obtain evs2 where t2: "trace w' = trace ?w1 @ evs2" by blast
  note sp = new_events_split[OF t1 t2]
  from assms(2) sp(1) have "CommandCall s env \<in> set evs2" by auto
  with sp(3) have "CommandCall s env \<in> set (new_events ?w1 w')" by simp
  from run_steps_calls[OF rs this] show ?thesis .
qed

lemma str_form_of_string: "is_str v \<Longrightarrow> PStr (py_str v) = v"
  by (cases v) simp_all

text \<open>The equations that evaluate a run on the concrete workflow.\<close>

lemmas demo_defs = demo_host_def fresh_def demo_workflow_def job_a_def job_b_def job_c_def
  step_exit0_def step_exit1_def job_b2_def dup_workflow_def passing_workflow_def
  step_nosuch_def job_n_def raise_workflow_def env_step_def env_job_def env_workflow_def
lemmas run_defs = run_def run_job_def run_step_def run_command_def run_action_def
  subprocess_run_def time_time_def emit_def Let_def

section \<open>Job filter that matches no job\<close>

text \<open>
  C3. For every workflow and every non-empty filter \<open>X\<close> that is the id of no job,
  \<^verbatim>\<open>run(job_filter=X)\<close> returns \<^verbatim>\<open>success = False\<close>, the error
  \<^verbatim>\<open>Job 'X' not found\<close> and \<^verbatim>\<open>total_time = 0\<close>. The world it leaves differs from the
  initial one only by the one reading of the clock at the start of \<^verbatim>\<open>run\<close>: the trace is
  unchanged, so no job and no step is dispatched and no process is started.
\<close>

theorem job_not_found:
  assumes "X \<noteq> []" and "\<forall>j \<in> set (w_jobs wfl). j_id j \<noteq> X"
  shows "run orc wfl (Some X) w =
           (Some \<lparr>success = False,
                   error = Some (''Job '' @ [CHR 0x27] @ X @ [CHR 0x27] @ '' not found''),
                   total_time = 0\<rparr>,
            w\<lparr>ticks := Suc (ticks w)\<rparr>)"
proof -
  have "filter (\<lambda>j. j_id j = X) (w_jobs wfl) = []"
    using assms(2) by (simp add: filter_empty_conv)
  then show ?thesis
    using assms(1) by (simp add: run_def time_time_def job_not_found_msg_def)
qed

theorem job_not_found_witness:
  "''deploy'' \<noteq> [] \<and> ''deploy'' \<notin> set (map j_id (w_jobs demo_workflow)) \<and>
   run demo_host demo_workflow (Some ''deploy'') fresh =
     (Some \<lparr>success = False, error = Some ''Job 'deploy' not found'', total_time = 0\<rparr>,
      fresh\<lparr>ticks := Suc (ticks fresh)\<rparr>)"
proof -
  have h1: "''deploy'' \<noteq> []" by simp
  have h2: "\<forall>j \<in> set (w_jobs demo_workflow). j_id j \<noteq> ''deploy''"
    by (simp add: demo_workflow_def job_a_def job_b_def job_c_def)
  show ?thesis
    using job_not_found [OF h1 h2, of demo_host fresh] h1 h2 by auto
qed

section \<open>Fail-fast\<close>

text \<open>
  C1. Let \<^verbatim>\<open>run\<close> be started on any workflow with any filter, and let \<open>x\<close> be an
  event of the run that reports a failed step. Then \<open>x\<close> is the last event of the run and
  the only one that reports a failure; it reports step \<open>s\<close> of job \<open>jb\<close>, where the jobs
  to run are \<open>js1 @ jb # js2\<close> and the steps of \<open>jb\<close> are \<open>ss1 @ s # ss2\<close>; the jobs
  dispatched are exactly \<open>js1 @ [jb]\<close> and the steps dispatched are exactly all steps of
  \<open>js1\<close>, then \<open>ss1\<close>, then \<open>s\<close> (so no step of \<open>ss2\<close> and no job of \<open>js2\<close> is
  dispatched); and \<^verbatim>\<open>run\<close> returns \<^verbatim>\<open>success = False\<close>, the error
  \<^verbatim>\<open>Job '<id of jb>' failed\<close> and as \<^verbatim>\<open>total_time\<close> the last clock reading of the
  run minus the reading taken when \<^verbatim>\<open>run\<close> started.
\<close>

theorem fail_fast:
  assumes run: "run orc wfl flt w = (ro, w')"
    and x: "x \<in> set (new_events w w')" and fx: "failed x"
  shows "\<exists>js1 jb js2 ss1 s ss2 pre t.
           jobs_to_run wfl flt = js1 @ jb # js2 \<and> j_steps jb = ss1 @ s # ss2 \<and>
           x = StepDone (s_name s) t False \<and> new_events w w' = pre @ [x] \<and>
           (\<forall>y\<in>set pre. \<not> failed y) \<and>
           job_calls (new_events w w') = js1 @ [jb] \<and>
           step_calls (new_events w w') = concat (map j_steps js1) @ ss1 @ [s] \<and>
           ro = Some \<lparr>success = False,
                       error = Some (''Job '' @ [CHR 0x27] @ j_id jb @ [CHR 0x27] @ '' failed''),
                       total_time = clock orc (ticks w' - 1) - clock orc (ticks w)\<rparr>"
proof -
  let ?evs = "new_events w w'"
  let ?js = "jobs_to_run wfl flt"
  from run_events[OF run] x have
    jp: "jobs_post orc (clock orc (ticks w)) ?js (w\<lparr>ticks := Suc (ticks w)\<rparr>) ro w' ?evs"
    by auto
  have nohang: "ro \<noteq> None"
  proof
    assume "ro = None"
    with jp have "hang_shape ?js ?evs" by (simp add: jobs_post_def)
    with x fx show False by (auto simp: hang_shape_def)
  qed
  then obtain r where r: "ro = Some r" by auto
  with jp have tt: "total_time r = clock orc (ticks w' - 1) - clock orc (ticks w)"
    by (simp add: jobs_post_def)
  have ns: "\<not> success r"
  proof
    assume "success r"
    with jp r have "ok_shape ?js ?evs" by (simp add: jobs_post_def)
    with x fx show False by (auto simp: ok_shape_def)
  qed
  with jp r obtain jb where e: "error r = Some (job_failed (j_id jb))"
    and fs: "fail_shape ?js ?evs jb"
    by (auto simp: jobs_post_def)
  from fs obtain js1 js2 ss1 s ss2 pre t where
    p: "?js = js1 @ jb # js2" "j_steps jb = ss1 @ s # ss2"
       "?evs = pre @ [StepDone (s_name s) t False]" "\<forall>y\<in>set pre. \<not> failed y"
       "job_calls pre = js1 @ [jb]" "step_calls pre = concat (map j_steps js1) @ ss1 @ [s]"
    unfolding fail_shape_def by blast
  from x fx p(3,4) have xe: "x = StepDone (s_name s) t False" by auto
  have jc: "job_calls ?evs = js1 @ [jb]" using p(3,5) by (simp add: job_calls_append)
  have sc: "step_calls ?evs = concat (map j_steps js1) @ ss1 @ [s]"
    using p(3,6) by (simp add: step_calls_append)
  have req: "r = \<lparr>success = False,
                       error = Some (''Job '' @ [CHR 0x27] @ j_id jb @ [CHR 0x27] @ '' failed''),
                       total_time = clock orc (ticks w' - 1) - clock orc (ticks w)\<rparr>"
    using ns e tt by (cases r) (simp add: job_failed_def)
  have "?js = js1 @ jb # js2 \<and> j_steps jb = ss1 @ s # ss2 \<and>
           x = StepDone (s_name s) t False \<and> ?evs = pre @ [x] \<and>
           (\<forall>y\<in>set pre. \<not> failed y) \<and>
           job_calls ?evs = js1 @ [jb] \<and>
           step_calls ?evs = concat (map j_steps js1) @ ss1 @ [s] \<and>
           ro = Some \<lparr>success = False,
                       error = Some (''Job '' @ [CHR 0x27] @ j_id jb @ [CHR 0x27] @ '' failed''),
                       total_time = clock orc (ticks w' - 1) - clock orc (ticks w)\<rparr>"
    using p(1,2,4) xe p(3) jc sc r req by simp
  then show ?thesis by blast
qed

theorem fail_fast_witness:
  "\<exists>ro w'. run demo_host demo_workflow None fresh = (ro, w') \<and>
      StepDone ''exit 1'' 1 False \<in> set (new_events fresh w') \<and>
      failed (StepDone ''exit 1'' 1 False) \<and>
      ro = Some \<lparr>success = False, error = Some ''Job 'b' failed'', total_time = 5\<rparr> \<and>
      job_calls (new_events fresh w') = [job_a, job_b] \<and>
      step_calls (new_events fresh w') = [step_exit0, step_exit1] \<and>
      (\<exists>js1 jb js2 ss1 s ss2 pre t.
           jobs_to_run demo_workflow None = js1 @ jb # js2 \<and> j_steps jb = ss1 @ s # ss2 \<and>
           StepDone ''exit 1'' 1 False = StepDone (s_name s) t False \<and>
           new_events fresh w' = pre @ [StepDone ''exit 1'' 1 False] \<and>
           (\<forall>y\<in>set pre. \<not> failed y) \<and>
           job_calls (new_events fresh w') = js1 @ [jb] \<and>
           step_calls (new_events fresh w') = concat (map j_steps js1) @ ss1 @ [s] \<and>
           ro = Some \<lparr>success = False,
                       error = Some (''Job '' @ [CHR 0x27] @ j_id jb @ [CHR 0x27] @ '' failed''),
                       total_time = clock demo_host (ticks w' - 1) - clock demo_host (ticks fresh)\<rparr>)"
proof -
  obtain ro w' where run: "run demo_host demo_workflow None fresh = (ro, w')" by force
  have "StepDone ''exit 1'' 1 False \<in>
          set (new_events fresh (snd (run demo_host demo_workflow None fresh)))"
    by (simp add: run_defs demo_defs new_events_def)
  with run have x: "StepDone ''exit 1'' 1 False \<in> set (new_events fresh w')" by simp
  have f: "failed (StepDone ''exit 1'' 1 False)" by simp
  have "fst (run demo_host demo_workflow None fresh) =
          Some \<lparr>success = False, error = Some ''Job 'b' failed'', total_time = 5\<rparr>"
    by (simp add: run_defs demo_defs job_failed_def)
  with run have r: "ro = Some \<lparr>success = False, error = Some ''Job 'b' failed'', total_time = 5\<rparr>"
    by simp
  have "job_calls (new_events fresh (snd (run demo_host demo_workflow None fresh))) = [job_a, job_b]"
    by (simp add: run_defs demo_defs new_events_def)
  with run have jc: "job_calls (new_events fresh w') = [job_a, job_b]" by simp
  have "step_calls (new_events fresh (snd (run demo_host demo_workflow None fresh))) = [step_exit0, step_exit1]"
    by (simp add: run_defs demo_defs new_events_def)
  with run have sc: "step_calls (new_events fresh w') = [step_exit0, step_exit1]" by simp
  note c = fail_fast [OF run x f]
  show ?thesis
    by (intro exI[of _ ro] exI[of _ w'] conjI) (rule run x f r jc sc c)+
qed

section \<open>Shape of the result\<close>




section \<open>The empty string as filter\<close>

text \<open>
  C10. For every workflow, \<^verbatim>\<open>run\<close> with the empty string as filter does exactly what
  \<^verbatim>\<open>run\<close> without a filter does: same result, same world. The jobs it dispatches are
  the first jobs of the workflow in declared order, all of them when the run succeeds, and
  a result it returns never carries the error \<^verbatim>\<open>Job '' not found\<close>.
\<close>

theorem empty_filter_is_no_filter:
  "run orc wfl (Some []) w = run orc wfl None w \<and>
   (\<forall>ro w'. run orc wfl (Some []) w = (ro, w') \<longrightarrow>
      prefix (job_calls (new_events w w')) (w_jobs wfl) \<and>
      (\<forall>r. ro = Some r \<longrightarrow>
         error r \<noteq> Some (''Job '' @ [CHR 0x27] @ [] @ [CHR 0x27] @ '' not found'') \<and>
         (success r \<longrightarrow> job_calls (new_events w w') = w_jobs wfl)))"
proof (intro conjI allI impI)
  show "run orc wfl (Some []) w = run orc wfl None w" by (simp add: run_def)
next
  fix ro w' assume run: "run orc wfl (Some []) w = (ro, w')"
  have js: "jobs_to_run wfl (Some []) = w_jobs wfl" by (simp add: jobs_to_run_def)
  from run_events[OF run] have
    jp: "jobs_post orc (clock orc (ticks w)) (w_jobs wfl) (w\<lparr>ticks := Suc (ticks w)\<rparr>) ro w'
           (new_events w w')"
    by (simp add: js)
  from dispatched_prefix[OF jp]
  show "prefix (job_calls (new_events w w')) (w_jobs wfl)" by simp
  fix r assume r: "ro = Some r"
  show "error r \<noteq> Some (''Job '' @ [CHR 0x27] @ [] @ [CHR 0x27] @ '' not found'')"
  proof (cases "success r")
    case True
    with jp r show ?thesis by (simp add: jobs_post_def)
  next
    case False
    with jp r have "\<exists>jb. error r = Some (job_failed (j_id jb)) \<and>
        fail_shape (w_jobs wfl) (new_events w w') jb"
      unfolding jobs_post_def by simp
    then obtain jb :: job where "error r = Some (job_failed (j_id jb))" by blast
    moreover have "job_failed (j_id jb) \<noteq> job_not_found_msg []" by (rule messages_differ)
    ultimately show ?thesis by (simp add: job_not_found_msg_def)
  qed
  assume "success r"
  with jp r show "job_calls (new_events w w') = w_jobs wfl"
    by (simp add: jobs_post_def ok_shape_def)
qed

theorem empty_filter_is_no_filter_witness:
  "run demo_host passing_workflow (Some []) fresh = run demo_host passing_workflow None fresh \<and>
   fst (run demo_host passing_workflow (Some []) fresh) =
     Some \<lparr>success = True, error = None, total_time = 5\<rparr> \<and>
   job_calls (new_events fresh (snd (run demo_host passing_workflow (Some []) fresh))) =
     w_jobs passing_workflow \<and>
   prefix (job_calls (new_events fresh (snd (run demo_host passing_workflow (Some []) fresh))))
     (w_jobs passing_workflow)"
proof -
  obtain ro w' where run: "run demo_host passing_workflow (Some []) fresh = (ro, w')" by force
  have "fst (run demo_host passing_workflow (Some []) fresh) =
     Some \<lparr>success = True, error = None, total_time = 5\<rparr>"
    by (simp add: run_defs demo_defs)
  with run have r: "ro = Some \<lparr>success = True, error = None, total_time = 5\<rparr>" by simp
  note t = empty_filter_is_no_filter [of demo_host passing_workflow fresh]
  from t have eq: "run demo_host passing_workflow (Some []) fresh =
      run demo_host passing_workflow None fresh" by (rule conjunct1)
  from t run r have a: "prefix (job_calls (new_events fresh w')) (w_jobs passing_workflow)"
    and b: "job_calls (new_events fresh w') = w_jobs passing_workflow"
    by simp_all
  have f: "fst (run demo_host passing_workflow (Some []) fresh) = ro"
    and s: "snd (run demo_host passing_workflow (Some []) fresh) = w'"
    using run by simp_all
  show ?thesis unfolding f s using eq r a b by (intro conjI)
qed

section \<open>Selection of jobs by the filter\<close>

text \<open>
  C6, as stated, says that a run with a filter \<open>X\<close> that matches some job dispatches
  exactly the jobs whose id is \<open>X\<close>. With two jobs of id \<^verbatim>\<open>b\<close> of which the first fails,
  the run stops after the first one: the second job of id \<^verbatim>\<open>b\<close> is never dispatched.
\<close>

theorem filter_selection_counterexample:
  "''b'' \<noteq> [] \<and> ''b'' \<in> set (map j_id (w_jobs dup_workflow)) \<and>
   jobs_to_run dup_workflow (Some ''b'') = [job_b, job_b2] \<and>
   j_id job_b = ''b'' \<and> j_id job_b2 = ''b'' \<and>
   fst (run demo_host dup_workflow (Some ''b'') fresh) =
     Some \<lparr>success = False, error = Some ''Job 'b' failed'', total_time = 3\<rparr> \<and>
   job_calls (new_events fresh (snd (run demo_host dup_workflow (Some ''b'') fresh))) = [job_b] \<and>
   job_calls (new_events fresh (snd (run demo_host dup_workflow (Some ''b'') fresh))) \<noteq>
     jobs_to_run dup_workflow (Some ''b'')"
proof -
  have a: "jobs_to_run dup_workflow (Some ''b'') = [job_b, job_b2]"
    by (simp add: jobs_to_run_def dup_workflow_def job_a_def job_b_def job_b2_def)
  have b: "job_calls (new_events fresh (snd (run demo_host dup_workflow (Some ''b'') fresh))) = [job_b]"
    by (simp add: run_defs demo_defs new_events_def)
  have c: "fst (run demo_host dup_workflow (Some ''b'') fresh) =
     Some \<lparr>success = False, error = Some ''Job 'b' failed'', total_time = 3\<rparr>"
    by (simp add: run_defs demo_defs job_failed_def)
  have d: "''b'' \<in> set (map j_id (w_jobs dup_workflow))"
    by (simp add: dup_workflow_def job_a_def job_b_def job_b2_def)
  have e: "j_id job_b = ''b''" "j_id job_b2 = ''b''" by (simp_all add: job_b_def job_b2_def)
  show ?thesis unfolding a b using c d e by simp
qed


text \<open>
  C6, amended. For every workflow (job ids may repeat) and every non-empty filter \<open>X\<close>
  that is the id of some job, the jobs dispatched by \<^verbatim>\<open>run(job_filter=X)\<close> are the first
  jobs, in declared order, of the list of jobs whose id is \<open>X\<close>, and the steps dispatched
  are the first steps of these jobs' steps in order; every dispatched job has id \<open>X\<close>.
  When the run returns success, all jobs of id \<open>X\<close> and all their steps were dispatched.
  When it returns failure, the jobs dispatched are those up to and including the job named
  in the error, and the steps dispatched end with a step of that job.
\<close>

theorem filter_selection:
  assumes X: "X \<noteq> []" and ex: "X \<in> set (map j_id (w_jobs wfl))"
    and run: "run orc wfl (Some X) w = (ro, w')"
  shows "prefix (job_calls (new_events w w')) (filter (\<lambda>j. j_id j = X) (w_jobs wfl)) \<and>
         prefix (step_calls (new_events w w'))
           (concat (map j_steps (filter (\<lambda>j. j_id j = X) (w_jobs wfl)))) \<and>
         (\<forall>j\<in>set (job_calls (new_events w w')). j_id j = X) \<and>
         (\<forall>r. ro = Some r \<longrightarrow>
            (success r \<longrightarrow>
               job_calls (new_events w w') = filter (\<lambda>j. j_id j = X) (w_jobs wfl) \<and>
               step_calls (new_events w w') =
                 concat (map j_steps (filter (\<lambda>j. j_id j = X) (w_jobs wfl)))) \<and>
            (\<not> success r \<longrightarrow>
               (\<exists>js1 jb js2 ss1 s ss2.
                  filter (\<lambda>j. j_id j = X) (w_jobs wfl) = js1 @ jb # js2 \<and>
                  j_steps jb = ss1 @ s # ss2 \<and>
                  job_calls (new_events w w') = js1 @ [jb] \<and>
                  step_calls (new_events w w') = concat (map j_steps js1) @ ss1 @ [s] \<and>
                  error r = Some (''Job '' @ [CHR 0x27] @ j_id jb @ [CHR 0x27] @ '' failed''))))"
proof -
  let ?F = "filter (\<lambda>j. j_id j = X) (w_jobs wfl)"
  let ?evs = "new_events w w'"
  have js: "jobs_to_run wfl (Some X) = ?F" using X by (simp add: jobs_to_run_def)
  have ne: "?F \<noteq> []" using ex by (auto simp: filter_empty_conv)
  from run_events[OF run] js ne have
    jp: "jobs_post orc (clock orc (ticks w)) ?F (w\<lparr>ticks := Suc (ticks w)\<rparr>) ro w' ?evs"
    by simp
  from dispatched_prefix[OF jp] have p1: "prefix (job_calls ?evs) ?F"
    and p2: "prefix (step_calls ?evs) (concat (map j_steps ?F))" by simp_all
  from p1 have "set (job_calls ?evs) \<subseteq> set ?F" by (rule set_mono_prefix)
  then have p3: "\<forall>j\<in>set (job_calls ?evs). j_id j = X" by auto
  have p4: "\<forall>r. ro = Some r \<longrightarrow>
            (success r \<longrightarrow> job_calls ?evs = ?F \<and> step_calls ?evs = concat (map j_steps ?F)) \<and>
            (\<not> success r \<longrightarrow>
               (\<exists>js1 jb js2 ss1 s ss2.
                  ?F = js1 @ jb # js2 \<and> j_steps jb = ss1 @ s # ss2 \<and>
                  job_calls ?evs = js1 @ [jb] \<and>
                  step_calls ?evs = concat (map j_steps js1) @ ss1 @ [s] \<and>
                  error r = Some (''Job '' @ [CHR 0x27] @ j_id jb @ [CHR 0x27] @ '' failed'')))"
  proof (intro allI impI conjI)
    fix r assume r: "ro = Some r" and "success r"
    with jp have "ok_shape ?F ?evs" by (simp add: jobs_post_def)
    then show "job_calls ?evs = ?F" "step_calls ?evs = concat (map j_steps ?F)"
      by (simp_all add: ok_shape_def)
  next
    fix r assume r: "ro = Some r" and "\<not> success r"
    with jp have "\<exists>jb. error r = Some (job_failed (j_id jb)) \<and> fail_shape ?F ?evs jb"
      unfolding jobs_post_def by simp
    then obtain jb :: job where e: "error r = Some (job_failed (j_id jb))"
      and fs: "fail_shape ?F ?evs jb" by blast
    from fail_shape_calls[OF fs] obtain js1 js2 ss1 s ss2 where
      "?F = js1 @ jb # js2 \<and> j_steps jb = ss1 @ s # ss2 \<and>
           job_calls ?evs = js1 @ [jb] \<and> step_calls ?evs = concat (map j_steps js1) @ ss1 @ [s]"
      by blast
    with e have "?F = js1 @ jb # js2 \<and> j_steps jb = ss1 @ s # ss2 \<and>
                  job_calls ?evs = js1 @ [jb] \<and>
                  step_calls ?evs = concat (map j_steps js1) @ ss1 @ [s] \<and>
                  error r = Some (''Job '' @ [CHR 0x27] @ j_id jb @ [CHR 0x27] @ '' failed'')"
      by (simp add: job_failed_def)
    then show "\<exists>js1 jb js2 ss1 s ss2.
                  ?F = js1 @ jb # js2 \<and> j_steps jb = ss1 @ s # ss2 \<and>
                  job_calls ?evs = js1 @ [jb] \<and>
                  step_calls ?evs = concat (map j_steps js1) @ ss1 @ [s] \<and>
                  error r = Some (''Job '' @ [CHR 0x27] @ j_id jb @ [CHR 0x27] @ '' failed'')"
      by blast
  qed
  show ?thesis by (intro conjI) (rule p1 p2 p3 p4)+
qed

theorem filter_selection_witness:
  "''b'' \<noteq> [] \<and> ''b'' \<in> set (map j_id (w_jobs dup_workflow)) \<and>
   (\<exists>ro w'. run demo_host dup_workflow (Some ''b'') fresh = (ro, w') \<and>
      ro = Some \<lparr>success = False, error = Some ''Job 'b' failed'', total_time = 3\<rparr> \<and>
      prefix (job_calls (new_events fresh w')) (filter (\<lambda>j. j_id j = ''b'') (w_jobs dup_workflow)) \<and>
      prefix (step_calls (new_events fresh w'))
        (concat (map j_steps (filter (\<lambda>j. j_id j = ''b'') (w_jobs dup_workflow)))) \<and>
      (\<forall>j\<in>set (job_calls (new_events fresh w')). j_id j = ''b''))"
proof -
  have X: "''b'' \<noteq> []" by simp
  have ex: "''b'' \<in> set (map j_id (w_jobs dup_workflow))"
    by (simp add: dup_workflow_def job_a_def job_b_def job_b2_def)
  obtain ro w' where run: "run demo_host dup_workflow (Some ''b'') fresh = (ro, w')" by force
  have "fst (run demo_host dup_workflow (Some ''b'') fresh) =
     Some \<lparr>success = False, error = Some ''Job 'b' failed'', total_time = 3\<rparr>"
    by (simp add: run_defs demo_defs job_failed_def)
  with run have r: "ro = Some \<lparr>success = False, error = Some ''Job 'b' failed'', total_time = 3\<rparr>"
    by simp
  note t = filter_selection [OF X ex run]
  note a = t [THEN conjunct1]
  note b = t [THEN conjunct2, THEN conjunct1]
  note c = t [THEN conjunct2, THEN conjunct2, THEN conjunct1]
  show ?thesis
    by (intro conjI exI[of _ ro] exI[of _ w']) (rule X ex run r a b c)+
qed

section \<open>Result of a step\<close>



section \<open>Exceptions of the shell process\<close>



section \<open>Environment of a command\<close>

text \<open>
  C4. For every workflow, job and key \<open>K\<close>: whenever \<^verbatim>\<open>_run_job\<close> calls
  \<^verbatim>\<open>_run_command\<close> for a step, the step is one of the job's steps and the environment
  passed in that call maps \<open>K\<close> to the step's own value if the step's \<^verbatim>\<open>env\<close> has
  \<open>K\<close>; else to the job's value if the job's \<^verbatim>\<open>env\<close> has \<open>K\<close>; else to the
  workflow's value if the workflow's \<^verbatim>\<open>env\<close> has \<open>K\<close>; else to the fixed value if
  \<open>K\<close> is one of the six fixed keys; else \<open>K\<close> is not set. Values of the job and the
  workflow level appear in their string form \<^verbatim>\<open>str(v)\<close>; when these values are
  strings, as in the data model, they appear as they are.
\<close>

theorem environment_precedence:
  assumes run: "run_job orc wfl jb w = (ro, w')"
    and call: "CommandCall s env \<in> set (new_events w w')"
  shows "s \<in> set (j_steps jb) \<and>
         env K =
           (case s_env s K of
              Some v \<Rightarrow> Some v
            | None \<Rightarrow>
                (case j_env jb K of
                   Some v \<Rightarrow> Some (PStr (py_str v))
                 | None \<Rightarrow>
                     (case w_env wfl K of
                        Some v \<Rightarrow> Some (PStr (py_str v))
                      | None \<Rightarrow>
                          (if K = ''CI'' then Some (PStr ''true'')
                           else if K = ''GITHUB_ACTIONS'' then Some (PStr ''true'')
                           else if K = ''GITHUB_WORKFLOW'' then Some (PStr (w_name wfl))
                           else if K = ''GITHUB_JOB'' then Some (PStr (j_id jb))
                           else if K = ''GITHUB_RUNNER_OS'' then Some (PStr ''Linux'')
                           else if K = ''RUNNER_OS'' then Some (PStr ''Linux'')
                           else None)))) \<and>
         ((\<forall>v. j_env jb K = Some v \<longrightarrow> is_str v) \<and> (\<forall>v. w_env wfl K = Some v \<longrightarrow> is_str v) \<longrightarrow>
          env K =
           (case s_env s K of
              Some v \<Rightarrow> Some v
            | None \<Rightarrow>
                (case j_env jb K of
                   Some v \<Rightarrow> Some v
                 | None \<Rightarrow>
                     (case w_env wfl K of
                        Some v \<Rightarrow> Some v
                      | None \<Rightarrow>
                          (if K = ''CI'' then Some (PStr ''true'')
                           else if K = ''GITHUB_ACTIONS'' then Some (PStr ''true'')
                           else if K = ''GITHUB_WORKFLOW'' then Some (PStr (w_name wfl))
                           else if K = ''GITHUB_JOB'' then Some (PStr (j_id jb))
                           else if K = ''GITHUB_RUNNER_OS'' then Some (PStr ''Linux'')
                           else if K = ''RUNNER_OS'' then Some (PStr ''Linux'')
                           else None)))))"
proof -
  from run_job_calls[OF run call] have s: "s \<in> set (j_steps jb)"
    and e: "env = build_environment wfl jb ++ s_env s" by simp_all
  have "env K = (case s_env s K of Some v \<Rightarrow> Some v | None \<Rightarrow> build_environment wfl jb K)"
    unfolding e by (simp add: map_add_def split: option.splits)
  then have general: "env K =
           (case s_env s K of
              Some v \<Rightarrow> Some v
            | None \<Rightarrow>
                (case j_env jb K of
                   Some v \<Rightarrow> Some (PStr (py_str v))
                 | None \<Rightarrow>
                     (case w_env wfl K of
                        Some v \<Rightarrow> Some (PStr (py_str v))
                      | None \<Rightarrow>
                          (if K = ''CI'' then Some (PStr ''true'')
                           else if K = ''GITHUB_ACTIONS'' then Some (PStr ''true'')
                           else if K = ''GITHUB_WORKFLOW'' then Some (PStr (w_name wfl))
                           else if K = ''GITHUB_JOB'' then Some (PStr (j_id jb))
                           else if K = ''GITHUB_RUNNER_OS'' then Some (PStr ''Linux'')
                           else if K = ''RUNNER_OS'' then Some (PStr ''Linux'')
                           else None))))"
    by (simp only: build_environment_lookup)
  have strings: "(\<forall>v. j_env jb K = Some v \<longrightarrow> is_str v) \<and> (\<forall>v. w_env wfl K = Some v \<longrightarrow> is_str v) \<longrightarrow>
          env K =
           (case s_env s K of
              Some v \<Rightarrow> Some v
            | None \<Rightarrow>
                (case j_env jb K of
                   Some v \<Rightarrow> Some v
                 | None \<Rightarrow>
                     (case w_env wfl K of
                        Some v \<Rightarrow> Some v
                      | None \<Rightarrow>
                          (if K = ''CI'' then Some (PStr ''true'')
                           else if K = ''GITHUB_ACTIONS'' then Some (PStr ''true'')
                           else if K = ''GITHUB_WORKFLOW'' then Some (PStr (w_name wfl))
                           else if K = ''GITHUB_JOB'' then Some (PStr (j_id jb))
                           else if K = ''GITHUB_RUNNER_OS'' then Some (PStr ''Linux'')
                           else if K = ''RUNNER_OS'' then Some (PStr ''Linux'')
                           else None))))"
  proof
    assume a: "(\<forall>v. j_env jb K = Some v \<longrightarrow> is_str v) \<and> (\<forall>v. w_env wfl K = Some v \<longrightarrow> is_str v)"
    have j: "\<And>v. j_env jb K = Some v \<Longrightarrow> PStr (py_str v) = v"
      using a by (simp add: str_form_of_string)
    have wv: "\<And>v. w_env wfl K = Some v \<Longrightarrow> PStr (py_str v) = v"
      using a by (simp add: str_form_of_string)
    show "env K =
           (case s_env s K of
              Some v \<Rightarrow> Some v
            | None \<Rightarrow>
                (case j_env jb K of
                   Some v \<Rightarrow> Some v
                 | None \<Rightarrow>
                     (case w_env wfl K of
                        Some v \<Rightarrow> Some v
                      | None \<Rightarrow>
                          (if K = ''CI'' then Some (PStr ''true'')
                           else if K = ''GITHUB_ACTIONS'' then Some (PStr ''true'')
                           else if K = ''GITHUB_WORKFLOW'' then Some (PStr (w_name wfl))
                           else if K = ''GITHUB_JOB'' then Some (PStr (j_id jb))
                           else if K = ''GITHUB_RUNNER_OS'' then Some (PStr ''Linux'')
                           else if K = ''RUNNER_OS'' then Some (PStr ''Linux'')
                           else None))))"
      unfolding general
      by (cases "s_env s K"; cases "j_env jb K"; cases "w_env wfl K") (simp_all add: j wv)
  qed
  show ?thesis by (intro conjI) (rule s general strings)+
qed

theorem environment_precedence_witness:
  "\<exists>ro w' env. run_job demo_host env_workflow env_job fresh = (ro, w') \<and>
      CommandCall env_step env \<in> set (new_events fresh w') \<and>
      env ''K'' = Some (PStr ''step'') \<and>
      env ''J'' = Some (PStr ''job'') \<and>
      env ''W'' = Some (PStr ''wf'') \<and>
      env ''CI'' = Some (PStr ''false'') \<and>
      env ''GITHUB_JOB'' = Some (PStr ''e'') \<and>
      env ''RUNNER_OS'' = Some (PStr ''Linux'') \<and>
      env ''HOME'' = None"
proof -
  obtain ro w' where run: "run_job demo_host env_workflow env_job fresh = (ro, w')" by force
  define env where "env = build_environment env_workflow env_job ++ s_env env_step"
  have "CommandCall env_step env \<in>
          set (new_events fresh (snd (run_job demo_host env_workflow env_job fresh)))"
    unfolding env_def
    by (simp add: run_job_def run_step_def run_command_def subprocess_run_def time_time_def
          emit_def Let_def new_events_def fresh_def demo_host_def
          env_job_def[THEN arg_cong, of j_steps] env_step_def[THEN arg_cong, of s_uses]
          env_step_def[THEN arg_cong, of s_run] env_step_def[THEN arg_cong, of s_name])
  with run have call: "CommandCall env_step env \<in> set (new_events fresh w')" by simp
  note t = environment_precedence [OF run call, THEN conjunct2, THEN conjunct1]
  have k: "env ''K'' = Some (PStr ''step'')"
    using t [of "''K''"] by (simp add: env_step_def)
  have j: "env ''J'' = Some (PStr ''job'')"
    using t [of "''J''"] by (simp add: env_step_def env_job_def)
  have w: "env ''W'' = Some (PStr ''wf'')"
    using t [of "''W''"] by (simp add: env_step_def env_job_def env_workflow_def)
  have ci: "env ''CI'' = Some (PStr ''false'')"
    using t [of "''CI''"] by (simp add: env_step_def env_job_def env_workflow_def)
  have gj: "env ''GITHUB_JOB'' = Some (PStr ''e'')"
    using t [of "''GITHUB_JOB''"] by (simp add: env_step_def env_job_def env_workflow_def)
  have ro: "env ''RUNNER_OS'' = Some (PStr ''Linux'')"
    using t [of "''RUNNER_OS''"] by (simp add: env_step_def env_job_def env_workflow_def)
  have h: "env ''HOME'' = None"
    using t [of "''HOME''"] by (simp add: env_step_def env_job_def env_workflow_def)
  show ?thesis
    by (intro exI[of _ ro] exI[of _ w'] exI[of _ env] conjI) (rule run call k j w ci gj ro h)+
qed


section \<open>String form of the values\<close>

text \<open>
  C5 says that every value of the environment passed to a command is a string. The values
  of the base, workflow and job layers are (\<open>build_environment_strings\<close>), but the step's
  own values are merged on top as they are: for a step with \<^verbatim>\<open>PORT: 8080\<close> in its
  \<^verbatim>\<open>env\<close>, the environment passed to \<^verbatim>\<open>_run_command\<close> and on to
  \<^verbatim>\<open>subprocess.run\<close> maps \<^verbatim>\<open>PORT\<close> to the integer 8080, while the job's
  \<^verbatim>\<open>RETRIES: 3\<close> arrives as the string \<^verbatim>\<open>3\<close>. What \<^verbatim>\<open>subprocess.run\<close> does
  with such an environment is the host's affair (CPython raises \<^verbatim>\<open>TypeError\<close>, which
  the handler of \<^verbatim>\<open>_run_command\<close> turns into a failed step).
\<close>

theorem step_env_not_coerced:
  "\<exists>ro w' env. run_job demo_host env_workflow env_job fresh = (ro, w') \<and>
      CommandCall env_step env \<in> set (new_events fresh w') \<and>
      (\<exists>out. Spawn ''echo $K'' (os_environ demo_host ++ env) out \<in> set (new_events fresh w')) \<and>
      env ''PORT'' = Some (PInt 8080) \<and> \<not> is_str (PInt 8080) \<and>
      env ''RETRIES'' = Some (PStr ''3'')"
proof -
  obtain ro w' where run: "run_job demo_host env_workflow env_job fresh = (ro, w')" by force
  define env where "env = build_environment env_workflow env_job ++ s_env env_step"
  have "CommandCall env_step env \<in>
          set (new_events fresh (snd (run_job demo_host env_workflow env_job fresh))) \<and>
        Spawn ''echo $K'' (os_environ demo_host ++ env) (Exited 0 []) \<in>
          set (new_events fresh (snd (run_job demo_host env_workflow env_job fresh)))"
    unfolding env_def
    by (simp add: run_job_def run_step_def run_command_def subprocess_run_def time_time_def
          emit_def Let_def new_events_def fresh_def
          demo_host_def[THEN arg_cong, of proc]
          env_job_def[THEN arg_cong, of j_steps] env_step_def[THEN arg_cong, of s_uses]
          env_step_def[THEN arg_cong, of s_run] env_step_def[THEN arg_cong, of s_name])
  with run have call: "CommandCall env_step env \<in> set (new_events fresh w')"
    and "Spawn ''echo $K'' (os_environ demo_host ++ env) (Exited 0 []) \<in> set (new_events fresh w')"
    by simp_all
  then have sp: "\<exists>out. Spawn ''echo $K'' (os_environ demo_host ++ env) out \<in> set (new_events fresh w')"
    by blast
  have p: "env ''PORT'' = Some (PInt 8080)"
    unfolding env_def by (simp add: env_step_def)
  have r: "env ''RETRIES'' = Some (PStr ''3'')"
    unfolding env_def
    by (simp add: env_step_def env_job_def build_environment_lookup map_add_def
          show_nat.simps digit_def)
  have n: "\<not> is_str (PInt 8080)" by simp
  show ?thesis
    by (intro exI[of _ ro] exI[of _ w'] exI[of _ env] conjI) (rule run call sp p n r)+
qed

section \<open>The documented failures of the loader\<close>

text \<open>
  \<^verbatim>\<open>parse\<close> raises \<^verbatim>\<open>FileNotFoundError\<close> exactly when the path does not exist, the
  \<^verbatim>\<open>ValueError\<close> for invalid YAML exactly when the YAML parser fails on the text, and the
  \<^verbatim>\<open>ValueError\<close> for a document that is not a dictionary exactly when the parsed document
  is not a mapping.
\<close>

lemma parse_documented_failures:
  "((\<exists>msg. parse safe_load path stem state = Inl (FileNotFoundError msg)) \<longleftrightarrow> state = Missing) \<and>
   ((\<exists>msg. parse safe_load path stem state =
             Inl (ValueError (''Invalid YAML in workflow file: '' @ msg))) \<longleftrightarrow>
      (\<exists>text msg. state = Holds text \<and> safe_load text = Inl msg)) \<and>
   (parse safe_load path stem state =
      Inl (ValueError ''Workflow file must contain a YAML dictionary'') \<longleftrightarrow>
      (\<exists>text doc. state = Holds text \<and> safe_load text = Inr doc \<and> (\<forall>d. doc \<noteq> YMap d)))"
proof -
  have jobs_err: "\<And>items err. parse_jobs items = Inl err \<Longrightarrow> \<exists>m. err = TypeError m"
  proof -
    fix items err
    have iter: "\<And>v e. py_iter v = Inl e \<Longrightarrow> \<exists>m. e = TypeError m"
      by (case_tac v) auto
    show "parse_jobs items = Inl err \<Longrightarrow> \<exists>m. err = TypeError m"
      by (induction items rule: parse_jobs.induct) (auto split: sum.splits dest: iter)
  qed
  show ?thesis
  proof (cases state)
    case Missing
    then show ?thesis by (simp add: parse_def)
  next
    case (Unreadable e)
    then show ?thesis by (simp add: parse_def)
  next
    case (Holds body)
    show ?thesis
    proof (cases "safe_load body")
      case (Inl msg)
      with Holds show ?thesis by (simp add: parse_def)
    next
      case (Inr doc)
      show ?thesis
      proof (cases "\<exists>d. doc = YMap d")
        case False
        with Holds Inr show ?thesis by (cases doc) (simp_all add: parse_def)
      next
        case True
        then obtain d where d: "doc = YMap d" by blast
        show ?thesis
        proof (cases "py_get d ''jobs'' (YMap [])")
          case (YMap items)
          show ?thesis
          proof (cases "parse_jobs items")
            case (Inl err)
            from jobs_err[OF Inl] obtain m where "err = TypeError m" by blast
            with Holds Inr d YMap Inl show ?thesis by (simp add: parse_def)
          next
            case (Inr parsed)
            with Holds \<open>safe_load body = Inr doc\<close> d YMap show ?thesis by (simp add: parse_def)
          qed
        qed (use Holds Inr d in \<open>simp_all add: parse_def\<close>)
      qed
    qed
  qed
qed

section \<open>Failures of the loader\<close>

text \<open>
  C9 says that \<^verbatim>\<open>parse\<close> fails in exactly three ways and otherwise returns a workflow.
  The three failures are as stated (\<open>parse_documented_failures\<close>), but they are not the only
  ones. For a file that exists, is valid YAML and has a mapping at top level, \<^verbatim>\<open>parse\<close>
  still raises \<^verbatim>\<open>AttributeError\<close> when the \<^verbatim>\<open>jobs\<close> entry is a list (the loop
  calls \<^verbatim>\<open>jobs.items()\<close>), and \<^verbatim>\<open>TypeError\<close> when the \<^verbatim>\<open>steps\<close> entry of a job
  is empty (\<^verbatim>\<open>None\<close> is not iterable); and for a path that exists but cannot be opened
  the error of \<^verbatim>\<open>open\<close> gets out.
\<close>

theorem parse_other_failures:
  "demo_load ''{name: CI, jobs: [build]}'' =
     Inr (YMap [(''name'', YStr ''CI''), (''jobs'', YList [YStr ''build''])]) \<and>
   parse demo_load ''ci.yml'' ''ci'' (Holds ''{name: CI, jobs: [build]}'') =
     Inl (AttributeError ([CHR 0x27] @ ''list'' @ [CHR 0x27] @ '' object has no attribute '' @
            [CHR 0x27] @ ''items'' @ [CHR 0x27])) \<and>
   parse demo_load ''ci.yml'' ''ci'' (Holds ''{name: CI, jobs: {build: {steps: }}}'') =
     Inl (TypeError ([CHR 0x27] @ ''NoneType'' @ [CHR 0x27] @ '' object is not iterable'')) \<and>
   parse demo_load ''workflows'' ''workflows'' (Unreadable ''Is a directory'') =
     Inl (OSError ''Is a directory'')"
  by (simp add: parse_def demo_load_def py_get_def)

end
